theory Spec2Isabelle
  imports Complex_Main "HOL-Library.Multiset"
begin

section \<open>Pitch spelling notebook: data model\<close>

text \<open>
  The notebook \<^verbatim>\<open>notebooks/03_mlflow/pitch_spelling.ipynb\<close> is modelled function by
  function. Python exceptions are values of type \<open>error\<close>; a function that may raise
  returns \<open>error + 'a\<close> with \<open>Inl\<close> for the exception. Numpy floats are idealised as
  real numbers, Python integers are \<open>int\<close>.
\<close>

datatype error = ValueError | KeyError | IndexError | TypeError

text \<open>
  A row of \<^verbatim>\<open>performance.note_array()\<close>: the fields the notebook reads
  (\<^verbatim>\<open>id\<close>, \<^verbatim>\<open>pitch\<close>, \<^verbatim>\<open>duration_sec\<close>).
\<close>

record perf_note =
  perf_id :: string
  pitch :: int
  duration_sec :: real

text \<open>
  A row of \<^verbatim>\<open>spart.note_array(include_pitch_spelling=True)\<close>: the fields the
  notebook reads (\<^verbatim>\<open>id\<close>, \<^verbatim>\<open>step\<close>, \<^verbatim>\<open>alter\<close>, \<^verbatim>\<open>octave\<close>).
\<close>

record score_note =
  note_id :: string
  step :: string
  alter :: int
  octave :: int

text \<open>
  An alignment dictionary: the key \<^verbatim>\<open>label\<close> is always present, the keys
  \<^verbatim>\<open>score_id\<close> and \<^verbatim>\<open>performance_id\<close> may be absent (\<open>None\<close>).
\<close>

record 'a alignment_entry =
  label :: string
  score_id :: "'a option"
  performance_id :: "string option"

text \<open>\<^verbatim>\<open>arr.item()\<close> of numpy: the single element of an array of size one, ValueError otherwise.\<close>

fun item :: "'a list \<Rightarrow> error + 'a" where
  "item [x] = Inr x"
| "item xs = Inl ValueError"

text \<open>\<^verbatim>\<open>d[k]\<close> on a dictionary held as an association list: KeyError on a missing key.\<close>

definition getitem :: "('k \<times> 'v) list \<Rightarrow> 'k \<Rightarrow> error + 'v" where
  "getitem d k = (case map_of d k of None \<Rightarrow> Inl KeyError | Some v \<Rightarrow> Inr v)"

text \<open>\<^verbatim>\<open>xs.index(x)\<close>: the first position of \<open>x\<close>; \<open>None\<close> stands for the ValueError.\<close>

fun index_of :: "'a list \<Rightarrow> 'a \<Rightarrow> nat option" where
  "index_of [] x = None"
| "index_of (y # ys) x = (if y = x then Some 0 else map_option Suc (index_of ys x))"

section \<open>The table of spellings\<close>

text \<open>
  \<^verbatim>\<open>PITCHES\<close> is a dictionary literal; it is kept as an association list because
  \<^verbatim>\<open>PITCHES.values()\<close> is read in insertion order.
\<close>

definition PITCHES :: "(nat \<times> string list) list" where
  "PITCHES =
    [(0, [''C'', ''B#'', ''D--'']),
     (1, [''C#'', ''B##'', ''D-'']),
     (2, [''D'', ''C##'', ''E--'']),
     (3, [''D#'', ''E-'', ''F--'']),
     (4, [''E'', ''D##'', ''F-'']),
     (5, [''F'', ''E#'', ''G--'']),
     (6, [''F#'', ''E##'', ''G-'']),
     (7, [''G'', ''F##'', ''A--'']),
     (8, [''G#'', ''A-'']),
     (9, [''A'', ''G##'', ''B--'']),
     (10, [''A#'', ''B-'', ''C--'']),
     (11, [''B'', ''A##'', ''C-''])]"

text \<open>\<^verbatim>\<open>accepted_pitches = [ii for i in PITCHES.values() for ii in i]\<close>\<close>

definition accepted_pitches :: "string list" where
  "accepted_pitches = concat (map snd PITCHES)"

text \<open>
  \<^verbatim>\<open>pitch_to_ix = {p: accepted_pitches.index(p) for p in accepted_pitches}\<close>.
  Each \<open>p\<close> is drawn from the list, so \<^verbatim>\<open>index\<close> cannot raise here; a later
  occurrence of a key would overwrite the earlier entry, as in a Python dictionary.
\<close>

definition dict_set :: "'k \<Rightarrow> 'v \<Rightarrow> ('k \<times> 'v) list \<Rightarrow> ('k \<times> 'v) list" where
  "dict_set k v d = (if k \<in> fst ` set d then map (\<lambda>(k', v'). if k' = k then (k', v) else (k', v')) d
                     else d @ [(k, v)])"

definition pitch_to_ix :: "(string \<times> nat) list" where
  "pitch_to_ix =
     fold (\<lambda>p d. case index_of accepted_pitches p of Some i \<Rightarrow> dict_set p i d | None \<Rightarrow> d)
       accepted_pitches []"

text \<open>\<^verbatim>\<open>self.n_out_pitch = len(pitch_to_ix)\<close> in \<^verbatim>\<open>PKSpell.__init__\<close>.\<close>

definition n_out_pitch :: nat where
  "n_out_pitch = length pitch_to_ix"

section \<open>Tokenization and features\<close>

text \<open>The dictionary literal \<^verbatim>\<open>{0:"", 1:"#", 2:"##", -1:"-", -2:"--"}\<close>.\<close>

definition alter_to_str :: "(int \<times> string) list" where
  "alter_to_str = [(0, []), (1, ''#''), (2, ''##''), (-1, ''-''), (-2, ''--'')]"

text \<open>
  \<^verbatim>\<open>tokenize_pitch_spelling(ps_note)\<close>: \<open>ps_note\<close> is the selection
  \<^verbatim>\<open>sna[np.where(...)]\<close>, an array of rows; \<^verbatim>\<open>.item()\<close> raises unless it holds one
  row.
\<close>

definition tokenize_pitch_spelling :: "score_note list \<Rightarrow> error + nat" where
  "tokenize_pitch_spelling ps_note =
     (case item ps_note of
        Inl e \<Rightarrow> Inl e
      | Inr n \<Rightarrow>
          (case getitem alter_to_str (alter n) of
             Inl e \<Rightarrow> Inl e
           | Inr a \<Rightarrow> getitem pitch_to_ix (step n @ a)))"

text \<open>
  \<^verbatim>\<open>extract_features(perf_note)\<close>: a zero vector of length 14, then three
  assignments in the order of the source.
\<close>

definition extract_features :: "perf_note list \<Rightarrow> error + real list" where
  "extract_features perf_note =
     (case item perf_note of
        Inl e \<Rightarrow> Inl e
      | Inr n \<Rightarrow>
          (let features = replicate 14 0;
               features = features[nat (pitch n mod 12) := 1];
               features = features[12 := real_of_int (pitch n) / 127];
               features = features[13 := duration_sec n / 60]
           in Inr features))"

text \<open>
  The feature matrix built inside \<^verbatim>\<open>PKSpell.predict\<close>: a zero matrix with one row
  per note, then three vectorised assignments
  (\<^verbatim>\<open>features[np.arange(n), np.remainder(pitch, 12)] = 1\<close>,
  \<^verbatim>\<open>features[:, 12] = pitch/127\<close>, \<^verbatim>\<open>features[:, 13] = duration_sec/60\<close>).
  The code divides the single-precision column \<^verbatim>\<open>duration_sec\<close> in single precision,
  where \<^verbatim>\<open>extract_features\<close> divides in double precision; here both are the exact
  quotient, so only bounds are stated of the rows of this matrix, never that
  they equal the vectors of \<^verbatim>\<open>extract_features\<close>.
\<close>

definition predict_features :: "perf_note list \<Rightarrow> real list list" where
  "predict_features pna =
     (let features = replicate (length pna) (replicate 14 0);
          features = map (\<lambda>(row, n). row[nat (pitch n mod 12) := 1]) (zip features pna);
          features = map (\<lambda>(row, n). row[12 := real_of_int (pitch n) / 127]) (zip features pna);
          features = map (\<lambda>(row, n). row[13 := duration_sec n / 60]) (zip features pna)
      in features)"

section \<open>Validity of a spelled name\<close>

text \<open>
  The table is checked against the usual reading of a spelled name: the semitone of the
  letter (C=0, D=2, E=4, F=5, G=7, A=9, B=11) plus one per sharp sign \<^verbatim>\<open>#\<close> and
  minus one per flat sign \<^verbatim>\<open>-\<close>. These three definitions state that reading; they
  are not part of the notebook.
\<close>

definition letter_semitone :: "(char \<times> int) list" where
  "letter_semitone =
     [(CHR ''C'', 0), (CHR ''D'', 2), (CHR ''E'', 4), (CHR ''F'', 5),
      (CHR ''G'', 7), (CHR ''A'', 9), (CHR ''B'', 11)]"

fun accidental_offset :: "string \<Rightarrow> int option" where
  "accidental_offset [] = Some 0"
| "accidental_offset (c # cs) =
     (if c = CHR ''#'' then map_option (\<lambda>n. n + 1) (accidental_offset cs)
      else if c = CHR ''-'' then map_option (\<lambda>n. n - 1) (accidental_offset cs)
      else None)"

definition valid_spelling :: "nat \<Rightarrow> string \<Rightarrow> bool" where
  "valid_spelling k name =
     (case name of
        [] \<Rightarrow> False
      | c # acc \<Rightarrow>
          (case map_of letter_semitone c of
             None \<Rightarrow> False
           | Some l \<Rightarrow>
               (case accidental_offset acc of
                  None \<Rightarrow> False
                | Some a \<Rightarrow> (l + a) mod 12 = int k)))"

section \<open>Prediction\<close>

text \<open>\<^verbatim>\<open>xs[i]\<close> for a non-negative index: IndexError out of range.\<close>

definition getindex :: "'a list \<Rightarrow> nat \<Rightarrow> error + 'a" where
  "getindex xs i = (if i < length xs then Inr (xs ! i) else Inl IndexError)"

text \<open>\<^verbatim>\<open>int(x)\<close> of a float: truncation toward zero.\<close>

definition py_int :: "real \<Rightarrow> int" where
  "py_int x = (if 0 \<le> x then \<lfloor>x\<rfloor> else \<lceil>x\<rceil>)"

text \<open>The dictionary literal \<^verbatim>\<open>{"":0, "#":1, "##":2, "-":-1, "--":-2}\<close> of \<^verbatim>\<open>predict\<close>.\<close>

definition str_to_alter :: "(string \<times> int) list" where
  "str_to_alter = [([], 0), (''#'', 1), (''##'', 2), (''-'', -1), (''--'', -2)]"

text \<open>
  The first two components of a tuple of \<^verbatim>\<open>spelling_array\<close>:
  \<^verbatim>\<open>accepted_pitches[pp][0]\<close> and the dictionary applied to \<^verbatim>\<open>accepted_pitches[pp][1:]\<close>.
\<close>

definition decode_token :: "nat \<Rightarrow> error + (string \<times> int)" where
  "decode_token pp =
     (case getindex accepted_pitches pp of
        Inl e \<Rightarrow> Inl e
      | Inr name \<Rightarrow>
          (case name of
             [] \<Rightarrow> Inl IndexError
           | c # rest \<Rightarrow>
               (case getitem str_to_alter rest of
                  Inl e \<Rightarrow> Inl e
                | Inr a \<Rightarrow> Inr ([c], a))))"

text \<open>
  One tuple of \<^verbatim>\<open>spelling_array\<close>, for position \<open>i\<close> and predicted class \<open>pp\<close>:
  the decoded step and alter, then \<^verbatim>\<open>int(pna[i]["pitch"].item()/12)-1\<close>.
\<close>

definition spelling_tuple :: "perf_note list \<Rightarrow> nat \<times> nat \<Rightarrow> error + (string \<times> int \<times> int)" where
  "spelling_tuple pna ipp =
     (case decode_token (snd ipp) of
        Inl e \<Rightarrow> Inl e
      | Inr (st, a) \<Rightarrow>
          (case getindex pna (fst ipp) of
             Inl e \<Rightarrow> Inl e
           | Inr n \<Rightarrow> Inr (st, a, py_int (real_of_int (pitch n) / 12) - 1)))"

text \<open>A list comprehension whose body may raise: the first exception ends it.\<close>

fun comprehension :: "('a \<Rightarrow> error + 'b) \<Rightarrow> 'a list \<Rightarrow> error + 'b list" where
  "comprehension f [] = Inr []"
| "comprehension f (x # xs) =
     (case f x of
        Inl e \<Rightarrow> Inl e
      | Inr y \<Rightarrow> (case comprehension f xs of Inl e \<Rightarrow> Inl e | Inr ys \<Rightarrow> Inr (y # ys)))"

text \<open>
  \<^verbatim>\<open>PKSpell.predict(ppart)\<close>. The network is a parameter: \<open>net features\<close> stands
  for \<^verbatim>\<open>compute_outputs(...)\<close> followed by \<^verbatim>\<open>argmax(dim=2)\<close>, one class per note, or
  an exception of the framework. \<^verbatim>\<open>squeeze()\<close> turns a single prediction into a
  0-dimensional tensor, which \<^verbatim>\<open>enumerate\<close> cannot iterate (TypeError).
\<close>

definition predict ::
  "(real list list \<Rightarrow> error + nat list) \<Rightarrow> perf_note list \<Rightarrow> error + (string \<times> int \<times> int) list" where
  "predict net pna =
     (let features = predict_features pna
      in case net features of
           Inl e \<Rightarrow> Inl e
         | Inr predicted_pitch \<Rightarrow>
             if length predicted_pitch = 1 then Inl TypeError
             else comprehension (spelling_tuple pna) (enumerate 0 predicted_pitch))"

section \<open>Alignment conversion\<close>

text \<open>
  A cell of the table read by \<^verbatim>\<open>pd.read_csv\<close>: a string, or an integer when the
  column holds numbers only. \<^verbatim>\<open>str\<close> of it is the string itself or the decimal
  numeral.
\<close>

datatype cell = Str string | Num int

definition digit_char :: "nat \<Rightarrow> char" where
  "digit_char d = ''0123456789'' ! d"

fun str_nat :: "nat \<Rightarrow> string" where
  "str_nat n = (if n < 10 then [digit_char n] else str_nat (n div 10) @ [digit_char (n mod 10)])"

declare str_nat.simps [simp del]

definition str_int :: "int \<Rightarrow> string" where
  "str_int i = (if i < 0 then CHR ''-'' # str_nat (nat (- i)) else str_nat (nat i))"

fun py_str :: "cell \<Rightarrow> string" where
  "py_str (Str s) = s"
| "py_str (Num i) = str_int i"

text \<open>
  The loop of \<^verbatim>\<open>produce_match\<close> over the rows \<^verbatim>\<open>(xml_id, midi_id)\<close>; the result is
  the list \<^verbatim>\<open>alignment\<close> handed to \<^verbatim>\<open>pt.save_match\<close>.
\<close>

definition produce_match :: "(cell \<times> cell) list \<Rightarrow> cell alignment_entry list" where
  "produce_match data =
     fold (\<lambda>x alignment.
        let dd =
          (if snd x = Str ''deletion'' then
             \<lparr>label = ''deletion'', score_id = Some (fst x), performance_id = None\<rparr>
           else if fst x = Str ''insertion'' then
             \<lparr>label = ''insertion'', score_id = None, performance_id = Some (py_str (snd x))\<rparr>
           else
             \<lparr>label = ''match'', score_id = Some (fst x), performance_id = Some (py_str (snd x))\<rparr>)
        in alignment @ [dd]) data []"

section \<open>Feature and label matrices\<close>

text \<open>
  The inner loop of \<^verbatim>\<open>create_data\<close> over \<^verbatim>\<open>enumerate(matched_notes)\<close>, with the
  arrays \<open>X\<close> and \<open>y\<close> as state. \<^verbatim>\<open>pna[np.where(pna["id"] == s)]\<close> is the list of rows
  with that id.
\<close>

fun create_rows ::
  "perf_note list \<Rightarrow> score_note list \<Rightarrow> (nat \<times> string alignment_entry) list
     \<Rightarrow> real list list \<times> nat list \<Rightarrow> error + (real list list \<times> nat list)" where
  "create_rows pna sna [] (X, y) = Inr (X, y)"
| "create_rows pna sna ((idx, match_note) # rest) (X, y) =
     (case performance_id match_note of
        None \<Rightarrow> Inl KeyError
      | Some pid \<Rightarrow>
          (case extract_features (filter (\<lambda>n. perf_id n = pid) pna) of
             Inl e \<Rightarrow> Inl e
           | Inr features \<Rightarrow>
               (case score_id match_note of
                  None \<Rightarrow> Inl KeyError
                | Some sid \<Rightarrow>
                    (case tokenize_pitch_spelling (filter (\<lambda>n. note_id n = sid) sna) of
                       Inl e \<Rightarrow> Inl e
                     | Inr token \<Rightarrow>
                         create_rows pna sna rest (X[idx := features], y[idx := token])))))"

text \<open>
  The body of the outer loop for one file pair, given what the library loaded from it:
  the performance note array, the alignment and the score note array.
\<close>

definition create_file ::
  "perf_note list \<times> string alignment_entry list \<times> score_note list
     \<Rightarrow> error + (real list list \<times> nat list)" where
  "create_file file =
     (case file of (pna, alignment, sna) \<Rightarrow>
        let matched_notes = filter (\<lambda>d. label d = ''match'') alignment;
            X = replicate (length matched_notes) (replicate 14 0);
            y = replicate (length matched_notes) 0
        in create_rows pna sna (enumerate 0 matched_notes) (X, y))"

text \<open>\<^verbatim>\<open>create_data(files)\<close>: the outer loop, appending to \<open>data\<close> and \<open>labels\<close>.\<close>

fun create_loop ::
  "(perf_note list \<times> string alignment_entry list \<times> score_note list) list
     \<Rightarrow> real list list list \<times> nat list list \<Rightarrow> error + (real list list list \<times> nat list list)" where
  "create_loop [] (data, labels) = Inr (data, labels)"
| "create_loop (file # files) (data, labels) =
     (case create_file file of
        Inl e \<Rightarrow> Inl e
      | Inr (X, y) \<Rightarrow> create_loop files (data @ [X], labels @ [y]))"

definition create_data ::
  "(perf_note list \<times> string alignment_entry list \<times> score_note list) list
     \<Rightarrow> error + (real list list list \<times> nat list list)" where
  "create_data files = create_loop files ([], [])"

section \<open>Batches\<close>

text \<open>
  \<^verbatim>\<open>collate_ps(data)\<close>. \<^verbatim>\<open>data.sort(key=lambda x: len(x[0]), reverse=True)\<close> is a
  stable sort by decreasing length: pairs of equal length keep their order. Unpacking
  \<^verbatim>\<open>zip(*data)\<close> into two names raises ValueError on an empty batch. The cast
  \<^verbatim>\<open>.float()\<close> is the parameter \<open>to_float\<close>, applied to every row.
\<close>

definition collate_ps :: "('a \<Rightarrow> 'b) \<Rightarrow> ('a list \<times> 't) list \<Rightarrow> error + ('b list \<times> nat list \<times> 't)" where
  "collate_ps to_float data =
     (let data = sort_key (\<lambda>x. - int (length (fst x))) data
      in case data of
           [] \<Rightarrow> Inl ValueError
         | d # ds \<Rightarrow>
             let src_seqs = map fst data;
                 trg_seqs = map snd data;
                 src_lengths = map length src_seqs
             in Inr (map to_float (hd src_seqs), src_lengths, hd trg_seqs))"

section \<open>Evaluation against the score\<close>

text \<open>\<^verbatim>\<open>np.where(sna["id"] == s)[0]\<close>: the positions of the rows with that id.\<close>

definition where_id :: "score_note list \<Rightarrow> string \<Rightarrow> nat list" where
  "where_id sna s = filter (\<lambda>j. note_id (sna ! j) = s) [0..<length sna]"

text \<open>
  The inner loop of \<^verbatim>\<open>eval_matched\<close> for performance note \<open>i\<close>: the first entry whose
  \<^verbatim>\<open>performance_id\<close> is the note's id appends a score index, sets the mask and
  breaks.
\<close>

fun match_loop ::
  "score_note list \<Rightarrow> string alignment_entry list \<Rightarrow> nat \<Rightarrow> perf_note
     \<Rightarrow> nat list \<times> real list \<Rightarrow> error + (nat list \<times> real list)" where
  "match_loop sna [] i perf_note (score_idxs, matched) = Inr (score_idxs, matched)"
| "match_loop sna (match_note # rest) i perf_note (score_idxs, matched) =
     (case performance_id match_note of
        None \<Rightarrow> Inl KeyError
      | Some pid \<Rightarrow>
          if pid = perf_id perf_note then
            (case score_id match_note of
               None \<Rightarrow> Inl KeyError
             | Some sid \<Rightarrow>
                 (case item (where_id sna sid) of
                    Inl e \<Rightarrow> Inl e
                  | Inr j \<Rightarrow> Inr (score_idxs @ [j], matched[i := 1])))
          else match_loop sna rest i perf_note (score_idxs, matched))"

text \<open>The outer loop over \<^verbatim>\<open>enumerate(performance.note_array())\<close>.\<close>

fun perf_loop ::
  "score_note list \<Rightarrow> string alignment_entry list \<Rightarrow> (nat \<times> perf_note) list
     \<Rightarrow> nat list \<times> real list \<Rightarrow> error + (nat list \<times> real list)" where
  "perf_loop sna matched_notes [] st = Inr st"
| "perf_loop sna matched_notes ((i, perf_note) # rest) st =
     (case match_loop sna matched_notes i perf_note st of
        Inl e \<Rightarrow> Inl e
      | Inr st' \<Rightarrow> perf_loop sna matched_notes rest st')"

text \<open>
  \<^verbatim>\<open>eval_matched(score_file, alignment, performance)\<close>, given the score note array
  and the performance note array. With no matched note, \<^verbatim>\<open>np.array([])\<close> is an array
  of floats and indexing \<open>sna\<close> with it raises IndexError.
\<close>

definition eval_matched ::
  "score_note list \<Rightarrow> string alignment_entry list \<Rightarrow> perf_note list
     \<Rightarrow> error + ((string \<times> int \<times> int) list \<times> real list)" where
  "eval_matched sna alignment pna =
     (let matched_notes = filter (\<lambda>d. label d = ''match'') alignment;
          matched = replicate (length pna) 0
      in case perf_loop sna matched_notes (enumerate 0 pna) ([], matched) of
           Inl e \<Rightarrow> Inl e
         | Inr (score_idxs, matched) \<Rightarrow>
             if score_idxs = [] then Inl IndexError
             else
               let true_spelling = map (\<lambda>j. (step (sna ! j), alter (sna ! j), octave (sna ! j))) score_idxs
               in Inr (true_spelling, matched))"

text \<open>
  \<^verbatim>\<open>arr[matched.astype(bool)]\<close>: the entries of \<open>arr\<close> where the mask is not zero;
  IndexError when the mask and the array differ in length.
\<close>

definition mask_select :: "real list \<Rightarrow> 'a list \<Rightarrow> error + 'a list" where
  "mask_select matched arr =
     (if length matched \<noteq> length arr then Inl IndexError
      else Inr (map snd (filter (\<lambda>(m, x). m \<noteq> 0) (zip matched arr))))"

section \<open>Feature vectors\<close>

lemma predict_features_nth:
  assumes "i < length pna"
  shows "predict_features pna ! i =
     (replicate 14 0)[nat (pitch (pna ! i) mod 12) := 1,
        12 := real_of_int (pitch (pna ! i)) / 127, 13 := duration_sec (pna ! i) / 60]"
  using assms by (simp add: predict_features_def Let_def)

lemma one_hot_slot:
  assumes "i < 12"
  shows "((replicate 14 (0::real))[nat (p mod 12) := 1, 12 := a, 13 := b]) ! i =
           (if int i = p mod 12 then 1 else 0)"
proof -
  have "0 \<le> p mod 12" by simp
  then have eq: "(nat (p mod 12) = i) = (int i = p mod 12)" by auto
  from assms show ?thesis by (simp add: nth_list_update eq)
qed

text \<open>
  C1. For a performed note with MIDI pitch \<open>p\<close> and duration \<open>d\<close> seconds,
  \<^verbatim>\<open>extract_features\<close> returns a vector of 14 entries: among the first twelve, entry
  \<open>p mod 12\<close> is 1 and the others are 0; entry 12 is \<open>p/127\<close>; entry 13 is \<open>d/60\<close>.
\<close>

theorem extract_features_vector:
  "\<exists>v. extract_features [n] = Inr v \<and> length v = 14
       \<and> (\<forall>i<12. v ! i = (if int i = pitch n mod 12 then 1 else 0))
       \<and> v ! 12 = real_of_int (pitch n) / 127
       \<and> v ! 13 = duration_sec n / 60"
proof -
  let ?v = "(replicate 14 (0::real))[nat (pitch n mod 12) := 1,
              12 := real_of_int (pitch n) / 127, 13 := duration_sec n / 60]"
  have "extract_features [n] = Inr ?v"
    by (simp add: extract_features_def Let_def)
  moreover have "length ?v = 14" by simp
  moreover have "\<forall>i<12. ?v ! i = (if int i = pitch n mod 12 then 1 else 0)"
    using one_hot_slot by blast
  moreover have "?v ! 12 = real_of_int (pitch n) / 127" by simp
  moreover have "?v ! 13 = duration_sec n / 60" by simp
  ultimately show ?thesis by blast
qed

theorem extract_features_vector_witness:
  "extract_features [\<lparr>perf_id = ''n0'', pitch = 61, duration_sec = 3\<rparr>]
     = Inr [0, 1, 0, 0, 0, 0, 0, 0, 0, 0, 0, 0, 61 / 127, 1 / 20]
   \<and> (1::nat) < 12
   \<and> [0, 1, 0, 0, 0, 0, 0, 0, 0, 0, 0, 0, 61 / 127, 1 / 20 :: real] ! 1 = 1"
proof -
  let ?n = "\<lparr>perf_id = ''n0'', pitch = 61, duration_sec = 3\<rparr>"
  have e: "extract_features [?n] = Inr [0, 1, 0, 0, 0, 0, 0, 0, 0, 0, 0, 0, 61 / 127, 1 / 20]"
    by (simp add: extract_features_def Let_def eval_nat_numeral)
  from extract_features_vector [of ?n] obtain v where
    v: "extract_features [?n] = Inr v"
    and h: "\<forall>i<12. v ! i = (if int i = pitch ?n mod 12 then 1 else 0)"
    by blast
  from h have "v ! 1 = (if int 1 = pitch ?n mod 12 then 1 else 0)"
    by simp
  then have "v ! 1 = 1" by simp
  moreover from v e have "v = [0, 1, 0, 0, 0, 0, 0, 0, 0, 0, 0, 0, 61 / 127, 1 / 20]" by simp
  ultimately show ?thesis using e by simp
qed

lemma feature_bounds:
  fixes p :: int and d :: real
  defines "v \<equiv> (replicate 14 (0::real))[nat (p mod 12) := 1, 12 := real_of_int p / 127, 13 := d / 60]"
  shows "\<forall>i<12. v ! i = 0 \<or> v ! i = 1"
    and "(0 \<le> v ! 12 \<and> v ! 12 \<le> 1) = (0 \<le> p \<and> p \<le> 127)"
    and "(0 \<le> v ! 13 \<and> v ! 13 \<le> 1) = (0 \<le> d \<and> d \<le> 60)"
proof -
  show "\<forall>i<12. v ! i = 0 \<or> v ! i = 1"
    unfolding v_def using one_hot_slot [of _ p] by auto
  show "(0 \<le> v ! 12 \<and> v ! 12 \<le> 1) = (0 \<le> p \<and> p \<le> 127)"
    unfolding v_def by auto
  show "(0 \<le> v ! 13 \<and> v ! 13 \<le> 1) = (0 \<le> d \<and> d \<le> 60)"
    unfolding v_def by auto
qed

lemma feature_unit_interval:
  fixes p :: int and d :: real
  assumes "0 \<le> p" and "p \<le> 127" and "0 \<le> d" and "d \<le> 60" and "i < 14"
  shows "0 \<le> (replicate 14 (0::real))[nat (p mod 12) := 1, 12 := real_of_int p / 127, 13 := d / 60] ! i
       \<and> (replicate 14 (0::real))[nat (p mod 12) := 1, 12 := real_of_int p / 127, 13 := d / 60] ! i \<le> 1"
proof -
  from \<open>i < 14\<close> consider "i < 12" | "i = 12" | "i = 13" by linarith
  then show ?thesis
  proof cases
    case 1
    with feature_bounds(1) [of p d] show ?thesis by fastforce
  next
    case 2
    with feature_bounds(2) [of p d] assms show ?thesis by simp
  next
    case 3
    with feature_bounds(3) [of p d] assms show ?thesis by simp
  qed
qed

text \<open>
  C2, as stated, fails: nothing clamps the duration, so a note longer than a minute has
  entry 13 above 1. Here a note of 120 seconds has entry 13 equal to 2.
\<close>

theorem extract_features_range_counterexample:
  "extract_features [\<lparr>perf_id = ''n0'', pitch = 60, duration_sec = 120\<rparr>]
     = Inr [1, 0, 0, 0, 0, 0, 0, 0, 0, 0, 0, 0, 60 / 127, 2]
   \<and> \<not> ([1, 0, 0, 0, 0, 0, 0, 0, 0, 0, 0, 0, 60 / 127, 2 :: real] ! 13 \<le> 1)"
  by (simp add: extract_features_def Let_def eval_nat_numeral)

text \<open>
  C2, amended. The twelve one-hot entries are 0 or 1. Entry 12 lies in \<open>[0,1]\<close> exactly
  when the pitch lies in 0..127, and entry 13 lies in \<open>[0,1]\<close> exactly when the duration
  lies in 0..60 seconds. So for a note with pitch in 0..127 and duration in 0..60 seconds
  every entry lies in \<open>[0,1]\<close>; the same holds for each row of the matrix built in
  \<^verbatim>\<open>PKSpell.predict\<close>.
\<close>

theorem extract_features_range:
  "(\<exists>v. extract_features [n] = Inr v
       \<and> (\<forall>i<12. v ! i = 0 \<or> v ! i = 1)
       \<and> ((0 \<le> v ! 12 \<and> v ! 12 \<le> 1) = (0 \<le> pitch n \<and> pitch n \<le> 127))
       \<and> ((0 \<le> v ! 13 \<and> v ! 13 \<le> 1) = (0 \<le> duration_sec n \<and> duration_sec n \<le> 60))
       \<and> (0 \<le> pitch n \<and> pitch n \<le> 127 \<and> 0 \<le> duration_sec n \<and> duration_sec n \<le> 60
            \<longrightarrow> (\<forall>i<14. 0 \<le> v ! i \<and> v ! i \<le> 1)))
   \<and> (\<forall>k<length pna.
         0 \<le> pitch (pna ! k) \<and> pitch (pna ! k) \<le> 127
           \<and> 0 \<le> duration_sec (pna ! k) \<and> duration_sec (pna ! k) \<le> 60
         \<longrightarrow> (\<forall>i<14. 0 \<le> predict_features pna ! k ! i \<and> predict_features pna ! k ! i \<le> 1))"
proof (intro conjI)
  let ?v = "(replicate 14 (0::real))[nat (pitch n mod 12) := 1,
              12 := real_of_int (pitch n) / 127, 13 := duration_sec n / 60]"
  have "extract_features [n] = Inr ?v"
    by (simp add: extract_features_def Let_def)
  moreover have "\<forall>i<12. ?v ! i = 0 \<or> ?v ! i = 1"
    by (rule feature_bounds(1))
  moreover have "(0 \<le> ?v ! 12 \<and> ?v ! 12 \<le> 1) = (0 \<le> pitch n \<and> pitch n \<le> 127)"
    by (rule feature_bounds(2))
  moreover have "(0 \<le> ?v ! 13 \<and> ?v ! 13 \<le> 1) = (0 \<le> duration_sec n \<and> duration_sec n \<le> 60)"
    by (rule feature_bounds(3))
  moreover have "0 \<le> pitch n \<and> pitch n \<le> 127 \<and> 0 \<le> duration_sec n \<and> duration_sec n \<le> 60
            \<longrightarrow> (\<forall>i<14. 0 \<le> ?v ! i \<and> ?v ! i \<le> 1)"
    using feature_unit_interval [of "pitch n" "duration_sec n"] by blast
  ultimately show "\<exists>v. extract_features [n] = Inr v
       \<and> (\<forall>i<12. v ! i = 0 \<or> v ! i = 1)
       \<and> ((0 \<le> v ! 12 \<and> v ! 12 \<le> 1) = (0 \<le> pitch n \<and> pitch n \<le> 127))
       \<and> ((0 \<le> v ! 13 \<and> v ! 13 \<le> 1) = (0 \<le> duration_sec n \<and> duration_sec n \<le> 60))
       \<and> (0 \<le> pitch n \<and> pitch n \<le> 127 \<and> 0 \<le> duration_sec n \<and> duration_sec n \<le> 60
            \<longrightarrow> (\<forall>i<14. 0 \<le> v ! i \<and> v ! i \<le> 1))"
    by blast
  show "\<forall>k<length pna.
         0 \<le> pitch (pna ! k) \<and> pitch (pna ! k) \<le> 127
           \<and> 0 \<le> duration_sec (pna ! k) \<and> duration_sec (pna ! k) \<le> 60
         \<longrightarrow> (\<forall>i<14. 0 \<le> predict_features pna ! k ! i \<and> predict_features pna ! k ! i \<le> 1)"
    using feature_unit_interval by (simp add: predict_features_nth)
qed

theorem extract_features_range_witness:
  "extract_features [\<lparr>perf_id = ''n0'', pitch = 60, duration_sec = 30\<rparr>]
     = Inr [1, 0, 0, 0, 0, 0, 0, 0, 0, 0, 0, 0, 60 / 127, 1 / 2]
   \<and> (0::int) \<le> 60 \<and> (60::int) \<le> 127 \<and> (0::real) \<le> 30 \<and> (30::real) \<le> 60
   \<and> (13::nat) < 14
   \<and> 0 \<le> [1, 0, 0, 0, 0, 0, 0, 0, 0, 0, 0, 0, 60 / 127, 1 / 2 :: real] ! 13
   \<and> [1, 0, 0, 0, 0, 0, 0, 0, 0, 0, 0, 0, 60 / 127, 1 / 2 :: real] ! 13 \<le> 1"
proof -
  let ?n = "\<lparr>perf_id = ''n0'', pitch = 60, duration_sec = 30\<rparr>"
  have e: "extract_features [?n] = Inr [1, 0, 0, 0, 0, 0, 0, 0, 0, 0, 0, 0, 60 / 127, 1 / 2]"
    by (simp add: extract_features_def Let_def eval_nat_numeral)
  from extract_features_range [of ?n "[]"] obtain v where
    v: "extract_features [?n] = Inr v"
    and r: "0 \<le> pitch ?n \<and> pitch ?n \<le> 127 \<and> 0 \<le> duration_sec ?n \<and> duration_sec ?n \<le> 60
            \<longrightarrow> (\<forall>i<14. 0 \<le> v ! i \<and> v ! i \<le> 1)"
    by blast
  from v e have "v = [1, 0, 0, 0, 0, 0, 0, 0, 0, 0, 0, 0, 60 / 127, 1 / 2]" by simp
  with r e show ?thesis by simp
qed

section \<open>The table\<close>

lemma accepted_pitches_eval:
  "accepted_pitches =
    [''C'', ''B#'', ''D--'', ''C#'', ''B##'', ''D-'', ''D'', ''C##'', ''E--'',
     ''D#'', ''E-'', ''F--'', ''E'', ''D##'', ''F-'', ''F'', ''E#'', ''G--'',
     ''F#'', ''E##'', ''G-'', ''G'', ''F##'', ''A--'', ''G#'', ''A-'', ''A'',
     ''G##'', ''B--'', ''A#'', ''B-'', ''C--'', ''B'', ''A##'', ''C-'']"
  by (simp add: accepted_pitches_def PITCHES_def)

lemma pitch_to_ix_eval:
  "pitch_to_ix =
    [(''C'', 0), (''B#'', 1), (''D--'', 2), (''C#'', 3), (''B##'', 4),
     (''D-'', 5), (''D'', 6), (''C##'', 7), (''E--'', 8), (''D#'', 9),
     (''E-'', 10), (''F--'', 11), (''E'', 12), (''D##'', 13), (''F-'', 14),
     (''F'', 15), (''E#'', 16), (''G--'', 17), (''F#'', 18), (''E##'', 19),
     (''G-'', 20), (''G'', 21), (''F##'', 22), (''A--'', 23), (''G#'', 24),
     (''A-'', 25), (''A'', 26), (''G##'', 27), (''B--'', 28), (''A#'', 29),
     (''B-'', 30), (''C--'', 31), (''B'', 32), (''A##'', 33), (''C-'', 34)]"
  by code_simp

lemma in_PITCHES_accepted:
  "(k, names) \<in> set PITCHES \<Longrightarrow> name \<in> set names \<Longrightarrow> name \<in> set accepted_pitches"
  by (auto simp: accepted_pitches_def intro!: bexI [of _ "(k, names)"])

text \<open>
  C3. The keys of \<^verbatim>\<open>PITCHES\<close> are exactly 0, ..., 11; \<^verbatim>\<open>PITCHES[0]\<close> is
  \<^verbatim>\<open>["C", "B#", "D--"]\<close>; and every name listed under a key \<open>k\<close> is valid for \<open>k\<close>:
  the semitone of its letter plus its accidental offset is congruent to \<open>k\<close> modulo 12.
\<close>

theorem PITCHES_valid:
  "map fst PITCHES = [0..<12]
   \<and> map_of PITCHES 0 = Some [''C'', ''B#'', ''D--'']
   \<and> (\<forall>(k, names) \<in> set PITCHES. \<forall>name \<in> set names. valid_spelling k name)"
proof (intro conjI)
  show "map fst PITCHES = [0..<12]"
    by code_simp
  show "map_of PITCHES 0 = Some [''C'', ''B#'', ''D--'']"
    by (simp add: PITCHES_def)
  show "\<forall>(k, names) \<in> set PITCHES. \<forall>name \<in> set names. valid_spelling k name"
    by code_simp
qed

theorem PITCHES_valid_witness:
  "(10, [''A#'', ''B-'', ''C--'']) \<in> set PITCHES \<and> ''C--'' \<in> set [''A#'', ''B-'', ''C--'']
   \<and> valid_spelling 10 ''C--''"
proof -
  have m: "(10, [''A#'', ''B-'', ''C--'']) \<in> set PITCHES"
    by (simp add: PITCHES_def)
  have "\<forall>(k, names) \<in> set PITCHES. \<forall>name \<in> set names. valid_spelling k name"
    using PITCHES_valid by blast
  with m have "\<forall>name \<in> set [''A#'', ''B-'', ''C--'']. valid_spelling 10 name"
    by blast
  with m show ?thesis by simp
qed

section \<open>Tokenization and decoding\<close>

lemma roundtrip_table:
  "list_all (\<lambda>name. name \<noteq> [] \<and>
      (case getitem pitch_to_ix name of
         Inl e \<Rightarrow> False
       | Inr t \<Rightarrow>
          (case decode_token t of
             Inl e \<Rightarrow> False
           | Inr (s, a) \<Rightarrow> s = [hd name] \<and> getitem alter_to_str a = Inr (tl name))))
     accepted_pitches"
  by code_simp

lemma alter_to_str_inj:
  "getitem alter_to_str a = Inr acc \<Longrightarrow> getitem alter_to_str b = Inr acc \<Longrightarrow> a = b"
  by (auto simp: getitem_def alter_to_str_def split: if_splits)

lemma roundtrip_name:
  assumes "name \<in> set accepted_pitches"
  obtains c rest t a where "name = c # rest" and "getitem pitch_to_ix name = Inr t"
    and "decode_token t = Inr ([c], a)" and "getitem alter_to_str a = Inr rest"
proof -
  have "\<forall>name\<in>set accepted_pitches. name \<noteq> [] \<and>
      (case getitem pitch_to_ix name of
         Inl e \<Rightarrow> False
       | Inr t \<Rightarrow>
          (case decode_token t of
             Inl e \<Rightarrow> False
           | Inr (s, a) \<Rightarrow> s = [hd name] \<and> getitem alter_to_str a = Inr (tl name)))"
    using roundtrip_table unfolding list_all_iff .
  with assms have ne: "name \<noteq> []" and c: "(case getitem pitch_to_ix name of
         Inl e \<Rightarrow> False
       | Inr t \<Rightarrow>
          (case decode_token t of
             Inl e \<Rightarrow> False
           | Inr (s, a) \<Rightarrow> s = [hd name] \<and> getitem alter_to_str a = Inr (tl name)))"
    by blast+
  from ne obtain ch rest where n: "name = ch # rest" by (cases name) auto
  from c obtain t where t: "getitem pitch_to_ix name = Inr t"
    by (cases "getitem pitch_to_ix name") auto
  from c t obtain s a where d: "decode_token t = Inr (s, a)"
    by (cases "decode_token t") auto
  from c t d n have "s = [ch]" and "getitem alter_to_str a = Inr rest" by auto
  with n t d that show thesis by blast
qed

text \<open>
  C4. For a step \<open>st\<close> (one letter) and an alter \<open>a\<close> whose name \<open>st + alter string\<close> is
  listed in \<^verbatim>\<open>PITCHES\<close>, \<^verbatim>\<open>tokenize_pitch_spelling\<close> returns a token, and decoding that
  token as \<^verbatim>\<open>PKSpell.predict\<close> does gives back \<open>st\<close> and \<open>a\<close>.
\<close>

theorem tokenize_decode_roundtrip:
  assumes "(k, names) \<in> set PITCHES" and "st @ acc \<in> set names" and "length st = 1"
    and "getitem alter_to_str a = Inr acc"
  shows "\<exists>t. tokenize_pitch_spelling [\<lparr>note_id = i, step = st, alter = a, octave = oc\<rparr>] = Inr t
           \<and> decode_token t = Inr (st, a)"
proof -
  from assms(3) obtain c where st: "st = [c]"
    by (cases st) auto
  have mem: "st @ acc \<in> set accepted_pitches"
    using assms(1,2) by (rule in_PITCHES_accepted)
  then obtain c' rest t b where n: "st @ acc = c' # rest"
    and t: "getitem pitch_to_ix (st @ acc) = Inr t"
    and d: "decode_token t = Inr ([c'], b)" and b: "getitem alter_to_str b = Inr rest"
    by (rule roundtrip_name)
  from n st have "c' = c" and "rest = acc" by simp_all
  with b assms(4) have "a = b" by (simp add: alter_to_str_inj)
  with d st \<open>c' = c\<close> have "decode_token t = Inr (st, a)" by simp
  moreover have "tokenize_pitch_spelling [\<lparr>note_id = i, step = st, alter = a, octave = oc\<rparr>] = Inr t"
    using assms(4) t by (simp add: tokenize_pitch_spelling_def)
  ultimately show ?thesis by blast
qed

theorem tokenize_decode_roundtrip_witness:
  "(0, [''C'', ''B#'', ''D--'']) \<in> set PITCHES \<and> ''D'' @ ''--'' \<in> set [''C'', ''B#'', ''D--'']
    \<and> length ''D'' = 1 \<and> getitem alter_to_str (-2) = Inr ''--''
    \<and> tokenize_pitch_spelling [\<lparr>note_id = ''n1'', step = ''D'', alter = -2, octave = 4\<rparr>] = Inr 2
    \<and> decode_token 2 = Inr (''D'', -2)"
proof -
  have h1: "(0, [''C'', ''B#'', ''D--'']) \<in> set PITCHES" by (simp add: PITCHES_def)
  have h2: "''D'' @ ''--'' \<in> set [''C'', ''B#'', ''D--'']" by simp
  have h3: "length ''D'' = 1" by simp
  have h4: "getitem alter_to_str (-2) = Inr ''--''" by (simp add: getitem_def alter_to_str_def)
  have t: "tokenize_pitch_spelling [\<lparr>note_id = ''n1'', step = ''D'', alter = -2, octave = 4\<rparr>] = Inr 2"
    by (simp add: tokenize_pitch_spelling_def getitem_def alter_to_str_def pitch_to_ix_eval)
  from tokenize_decode_roundtrip [OF h1 h2 h3 h4, of "''n1''" 4] t
  have "decode_token 2 = Inr (''D'', -2)"
    by simp
  with h1 h2 h3 h4 t show ?thesis by blast
qed

lemma n_out_pitch_eval: "n_out_pitch = 35"
  by (simp add: n_out_pitch_def pitch_to_ix_eval)

lemma pitch_to_ix_values: "\<forall>(p, i) \<in> set pitch_to_ix. i < 35"
  by (simp add: pitch_to_ix_eval)

lemma pitch_to_ix_keys: "map fst pitch_to_ix = accepted_pitches"
  by (simp add: pitch_to_ix_eval accepted_pitches_eval)

lemma pitch_to_ix_indices: "map (\<lambda>p. the (map_of pitch_to_ix p)) accepted_pitches = [0..<35]"
  by code_simp

lemma distinct_accepted_pitches: "distinct accepted_pitches"
  by (simp add: accepted_pitches_eval)

lemma tokenize_bound:
  assumes "tokenize_pitch_spelling ps_note = Inr t"
  shows "t < 35"
proof -
  from assms obtain name where "getitem pitch_to_ix name = Inr t"
    by (auto simp: tokenize_pitch_spelling_def split: sum.splits)
  then have "map_of pitch_to_ix name = Some t"
    by (simp add: getitem_def split: option.splits)
  then have "(name, t) \<in> set pitch_to_ix"
    by (rule map_of_SomeD)
  with pitch_to_ix_values show ?thesis by blast
qed

text \<open>
  C10. \<^verbatim>\<open>accepted_pitches\<close> holds 35 pairwise distinct names, \<^verbatim>\<open>pitch_to_ix\<close> has
  exactly these names as keys and maps them one-to-one onto 0, ..., 34, the output size
  \<^verbatim>\<open>n_out_pitch\<close> is 35, and every token returned by \<^verbatim>\<open>tokenize_pitch_spelling\<close> is
  below \<^verbatim>\<open>n_out_pitch\<close>.
\<close>

theorem pitch_to_ix_bijection:
  "length accepted_pitches = 35
   \<and> distinct accepted_pitches
   \<and> map fst pitch_to_ix = accepted_pitches
   \<and> bij_betw (\<lambda>p. the (map_of pitch_to_ix p)) (set accepted_pitches) {0..<35}
   \<and> n_out_pitch = 35
   \<and> (\<forall>ps_note t. tokenize_pitch_spelling ps_note = Inr t \<longrightarrow> t < n_out_pitch)"
proof (intro conjI)
  show "length accepted_pitches = 35"
    by (simp add: accepted_pitches_eval)
  show "distinct accepted_pitches"
    by (rule distinct_accepted_pitches)
  show "map fst pitch_to_ix = accepted_pitches"
    by (rule pitch_to_ix_keys)
  show n: "n_out_pitch = 35"
    by (simp add: n_out_pitch_def pitch_to_ix_eval)
  show "\<forall>ps_note t. tokenize_pitch_spelling ps_note = Inr t \<longrightarrow> t < n_out_pitch"
    using tokenize_bound n by simp
  have "distinct (map (\<lambda>p. the (map_of pitch_to_ix p)) accepted_pitches)"
    by (simp only: pitch_to_ix_indices distinct_upt)
  then have "inj_on (\<lambda>p. the (map_of pitch_to_ix p)) (set accepted_pitches)"
    by (simp add: distinct_map)
  moreover have "(\<lambda>p. the (map_of pitch_to_ix p)) ` set accepted_pitches = {0..<35}"
    using pitch_to_ix_indices by (metis set_map set_upt)
  ultimately show "bij_betw (\<lambda>p. the (map_of pitch_to_ix p)) (set accepted_pitches) {0..<35}"
    by (simp add: bij_betw_def)
qed

theorem pitch_to_ix_bijection_witness:
  "tokenize_pitch_spelling [\<lparr>note_id = ''n7'', step = ''C'', alter = -1, octave = 5\<rparr>] = Inr 34
   \<and> 34 < n_out_pitch"
proof -
  have t: "tokenize_pitch_spelling [\<lparr>note_id = ''n7'', step = ''C'', alter = -1, octave = 5\<rparr>] = Inr 34"
    by (simp add: tokenize_pitch_spelling_def getitem_def alter_to_str_def pitch_to_ix_eval)
  with pitch_to_ix_bijection show ?thesis by blast
qed

section \<open>Alignment conversion\<close>

lemma fold_append_map: "fold (\<lambda>x acc. acc @ [f x]) xs acc = acc @ map f xs"
  by (induction xs arbitrary: acc) simp_all

text \<open>
  C5. \<^verbatim>\<open>produce_match\<close> turns every row of the table, in row order, into exactly one
  dictionary: label \<^verbatim>\<open>deletion\<close> with the row's \<^verbatim>\<open>xml_id\<close> as \<^verbatim>\<open>score_id\<close> when the
  \<^verbatim>\<open>midi_id\<close> is \<^verbatim>\<open>"deletion"\<close>; otherwise label \<^verbatim>\<open>insertion\<close> with the \<^verbatim>\<open>midi_id\<close> as
  a string as \<^verbatim>\<open>performance_id\<close> when the \<^verbatim>\<open>xml_id\<close> is \<^verbatim>\<open>"insertion"\<close>; otherwise label
  \<^verbatim>\<open>match\<close> with both.
\<close>

theorem produce_match_rows:
  "length (produce_match data) = length data \<and>
   (\<forall>i<length data.
      produce_match data ! i =
        (if snd (data ! i) = Str ''deletion'' then
           \<lparr>label = ''deletion'', score_id = Some (fst (data ! i)), performance_id = None\<rparr>
         else if fst (data ! i) = Str ''insertion'' then
           \<lparr>label = ''insertion'', score_id = None, performance_id = Some (py_str (snd (data ! i)))\<rparr>
         else
           \<lparr>label = ''match'', score_id = Some (fst (data ! i)),
             performance_id = Some (py_str (snd (data ! i)))\<rparr>))"
  by (simp add: produce_match_def Let_def fold_append_map)

theorem produce_match_rows_witness:
  "(0::nat) < length [(Str ''n1'', Num 12), (Str ''n2'', Str ''deletion''), (Str ''insertion'', Str ''n5'')]
   \<and> produce_match [(Str ''n1'', Num 12), (Str ''n2'', Str ''deletion''), (Str ''insertion'', Str ''n5'')] ! 0
       = \<lparr>label = ''match'', score_id = Some (Str ''n1''), performance_id = Some ''12''\<rparr>"
proof -
  let ?data = "[(Str ''n1'', Num 12), (Str ''n2'', Str ''deletion''), (Str ''insertion'', Str ''n5'')]"
  have l: "(0::nat) < length ?data" by simp
  have s: "str_int 12 = ''12''"
    by (simp add: str_int_def str_nat.simps digit_char_def)
  from produce_match_rows [of ?data] l
  have "produce_match ?data ! 0 =
      (if snd (?data ! 0) = Str ''deletion'' then
           \<lparr>label = ''deletion'', score_id = Some (fst (?data ! 0)), performance_id = None\<rparr>
         else if fst (?data ! 0) = Str ''insertion'' then
           \<lparr>label = ''insertion'', score_id = None, performance_id = Some (py_str (snd (?data ! 0)))\<rparr>
         else
           \<lparr>label = ''match'', score_id = Some (fst (?data ! 0)),
             performance_id = Some (py_str (snd (?data ! 0)))\<rparr>)"
    by blast
  with s l show ?thesis by simp
qed

section \<open>Prediction\<close>

lemma comprehension_Inr:
  "comprehension f xs = Inr ys \<Longrightarrow> list_all2 (\<lambda>x y. f x = Inr y) xs ys"
  by (induction xs arbitrary: ys) (auto split: sum.splits)

lemma comprehension_total:
  assumes "\<forall>x\<in>set xs. \<exists>y. f x = Inr y"
  shows "\<exists>ys. comprehension f xs = Inr ys"
  using assms by (induction xs) (auto split: sum.splits)

lemma comprehension_nth:
  assumes "comprehension f xs = Inr ys"
  shows "length ys = length xs" and "i < length xs \<Longrightarrow> f (xs ! i) = Inr (ys ! i)"
  using comprehension_Inr [OF assms] by (simp_all add: list_all2_conv_all_nth)

lemma decode_token_table:
  "list_all (\<lambda>pp. case decode_token pp of Inl e \<Rightarrow> False | Inr x \<Rightarrow> True) [0..<35]"
  by code_simp

lemma decode_token_total:
  assumes "pp < 35"
  shows "\<exists>st a. decode_token pp = Inr (st, a)"
proof -
  have "\<forall>pp\<in>set [0..<35]. case decode_token pp of Inl e \<Rightarrow> False | Inr x \<Rightarrow> True"
    using decode_token_table unfolding list_all_iff .
  with assms have "case decode_token pp of Inl e \<Rightarrow> False | Inr x \<Rightarrow> True"
    by simp
  then show ?thesis by (cases "decode_token pp") auto
qed

lemma py_int_div: "0 \<le> p \<Longrightarrow> py_int (real_of_int p / 12) = p div 12"
  using floor_divide_of_int_eq [of p 12, where ?'a = real] by (simp add: py_int_def)

text \<open>
  C9. When the network returns one class below \<^verbatim>\<open>n_out_pitch\<close> per note (and the
  performance does not consist of a single note), \<^verbatim>\<open>PKSpell.predict\<close> returns one tuple
  per note whose step and alter decode the predicted class and whose octave is
  \<^verbatim>\<open>int(pitch/12) - 1\<close>, computed from the pitch of the note alone; for a pitch that is
  not negative this is \<open>pitch div 12 - 1\<close>, the floor. Pitch 60 predicted as B sharp gets
  octave 4.
\<close>

theorem predict_octave:
  assumes net: "net (predict_features pna) = Inr predicted"
    and len: "length predicted = length pna"
    and one: "length pna \<noteq> 1"
    and cls: "\<forall>pp\<in>set predicted. pp < n_out_pitch"
  shows "\<exists>out. predict net pna = Inr out \<and> length out = length pna
     \<and> (\<forall>i<length pna.
           decode_token (predicted ! i) = Inr (fst (out ! i), fst (snd (out ! i)))
         \<and> snd (snd (out ! i)) = py_int (real_of_int (pitch (pna ! i)) / 12) - 1
         \<and> (0 \<le> pitch (pna ! i) \<longrightarrow> snd (snd (out ! i)) = pitch (pna ! i) div 12 - 1))"
proof -
  have p: "predict net pna = comprehension (spelling_tuple pna) (enumerate 0 predicted)"
    using net len one by (simp add: predict_def Let_def)
  have "\<forall>x\<in>set (enumerate 0 predicted). \<exists>y. spelling_tuple pna x = Inr y"
  proof
    fix x assume "x \<in> set (enumerate 0 predicted)"
    then have "fst x < length predicted" and "snd x = predicted ! fst x"
      by (auto simp: in_set_enumerate_eq)
    then have i: "fst x < length pna" and "snd x \<in> set predicted"
      using len by simp_all
    with cls have "snd x < 35" by (simp add: n_out_pitch_eval)
    then obtain st a where "decode_token (snd x) = Inr (st, a)"
      using decode_token_total by blast
    with i show "\<exists>y. spelling_tuple pna x = Inr y"
      by (simp add: spelling_tuple_def getindex_def)
  qed
  then obtain out where out: "comprehension (spelling_tuple pna) (enumerate 0 predicted) = Inr out"
    using comprehension_total by blast
  have l: "length out = length pna"
    using comprehension_nth(1) [OF out] len by simp
  have "decode_token (predicted ! i) = Inr (fst (out ! i), fst (snd (out ! i)))
         \<and> snd (snd (out ! i)) = py_int (real_of_int (pitch (pna ! i)) / 12) - 1
         \<and> (0 \<le> pitch (pna ! i) \<longrightarrow> snd (snd (out ! i)) = pitch (pna ! i) div 12 - 1)"
    if i: "i < length pna" for i
  proof -
    from i len have "spelling_tuple pna (enumerate 0 predicted ! i) = Inr (out ! i)"
      using comprehension_nth(2) [OF out, of i] by simp
    with i len have s: "spelling_tuple pna (i, predicted ! i) = Inr (out ! i)"
      by (simp add: nth_enumerate_eq)
    then obtain st a where d: "decode_token (predicted ! i) = Inr (st, a)"
      by (auto simp: spelling_tuple_def split: sum.splits)
    with s i have "out ! i = (st, a, py_int (real_of_int (pitch (pna ! i)) / 12) - 1)"
      by (simp add: spelling_tuple_def getindex_def)
    with d show ?thesis by (simp add: py_int_div)
  qed
  moreover from p out have "predict net pna = Inr out" by simp
  ultimately show ?thesis using l by blast
qed

theorem predict_octave_witness:
  "predict (\<lambda>features. Inr [1, 34])
      [\<lparr>perf_id = ''n0'', pitch = 60, duration_sec = 1\<rparr>, \<lparr>perf_id = ''n1'', pitch = 59, duration_sec = 2\<rparr>]
     = Inr [(''B'', 1, 4), (''C'', -1, 3)]
   \<and> (0::int) \<le> 60 \<and> (4::int) = 60 div 12 - 1"
proof -
  let ?pna = "[\<lparr>perf_id = ''n0'', pitch = 60, duration_sec = 1\<rparr>, \<lparr>perf_id = ''n1'', pitch = 59, duration_sec = 2\<rparr>]"
  let ?net = "\<lambda>features :: real list list. (Inr [1, 34] :: error + nat list)"
  have h1: "?net (predict_features ?pna) = Inr [1, 34]" by simp
  have h2: "length [1, 34 :: nat] = length ?pna" by simp
  have h3: "length ?pna \<noteq> 1" by simp
  have h4: "\<forall>pp\<in>set [1, 34 :: nat]. pp < n_out_pitch" by (simp add: n_out_pitch_eval)
  have e: "predict ?net ?pna = Inr [(''B'', 1, 4), (''C'', -1, 3)]"
    by (simp add: predict_def Let_def enumerate_eq_zip spelling_tuple_def decode_token_def getindex_def
          accepted_pitches_eval getitem_def str_to_alter_def py_int_def upt_rec)
  from predict_octave [OF h1 h2 h3 h4] e show ?thesis by simp
qed

section \<open>Batches\<close>

lemma find_filter: "find P xs = (case filter P xs of [] \<Rightarrow> None | x # _ \<Rightarrow> Some x)"
  by (induction xs) simp_all

lemma sorted_desc_hd:
  fixes data :: "('a list \<times> 't) list"
  assumes "sort_key (\<lambda>x. - int (length (fst x))) data = d # ds"
  shows "d \<in> set data"
    and "\<forall>y\<in>set data. length (fst y) \<le> length (fst d)"
    and "find (\<lambda>x. \<forall>y\<in>set data. length (fst y) \<le> length (fst x)) data = Some d"
proof -
  let ?f = "\<lambda>x :: 'a list \<times> 't. - int (length (fst x))"
  have s: "set data = set (d # ds)"
    using assms by (metis set_sort)
  then show d: "d \<in> set data" by simp
  have "sorted (map ?f (d # ds))"
    using assms by (metis sorted_sort_key)
  then have "\<forall>y\<in>set ds. ?f d \<le> ?f y" by simp
  with s show m: "\<forall>y\<in>set data. length (fst y) \<le> length (fst d)" by auto
  have eq: "(\<forall>y\<in>set data. length (fst y) \<le> length (fst x)) = (?f x = ?f d)"
    if "x \<in> set data" for x
    using that m d by force
  have "filter (\<lambda>x. \<forall>y\<in>set data. length (fst y) \<le> length (fst x)) data
      = filter (\<lambda>x. ?f x = ?f d) data"
    by (rule filter_cong) (simp_all add: eq)
  also have "\<dots> = filter (\<lambda>x. ?f x = ?f d) (sort_key ?f data)"
    by (rule sort_key_stable [symmetric])
  also have "\<dots> = d # filter (\<lambda>x. ?f x = ?f d) ds"
    by (simp add: assms)
  finally show "find (\<lambda>x. \<forall>y\<in>set data. length (fst y) \<le> length (fst x)) data = Some d"
    by (simp add: find_filter)
qed

text \<open>
  C8. For a batch that is not empty, \<^verbatim>\<open>collate_ps\<close> returns the source (cast to float)
  and the target of one pair only: the first pair of the batch whose source is longest,
  which is the head of the batch sorted by decreasing source length. The list of lengths
  it returns holds the lengths of all sources of the batch, in decreasing order. For a
  batch of one pair it returns that pair and its length.
\<close>

theorem collate_ps_longest:
  fixes data :: "('a list \<times> 't) list"
  assumes "data \<noteq> []"
  shows "\<exists>src trg lens.
      collate_ps to_float data = Inr (map to_float src, lens, trg)
    \<and> find (\<lambda>x. \<forall>y\<in>set data. length (fst y) \<le> length (fst x)) data = Some (src, trg)
    \<and> lens = map (\<lambda>x. length (fst x)) (sort_key (\<lambda>x. - int (length (fst x))) data)
    \<and> mset lens = mset (map (\<lambda>x. length (fst x)) data)
    \<and> sorted (rev lens)
    \<and> (\<forall>s t. data = [(s, t)] \<longrightarrow> src = s \<and> trg = t \<and> lens = [length s])"
proof -
  let ?f = "\<lambda>x :: 'a list \<times> 't. - int (length (fst x))"
  let ?lens = "map (\<lambda>x. length (fst x)) (sort_key ?f data)"
  from assms have "sort_key ?f data \<noteq> []"
    by (metis length_sort length_0_conv)
  then obtain d ds where sd: "sort_key ?f data = d # ds"
    by (cases "sort_key ?f data") auto
  obtain src trg where d: "d = (src, trg)" by (cases d)
  have c: "collate_ps to_float data = Inr (map to_float src, ?lens, trg)"
    using sd d by (simp add: collate_ps_def Let_def)
  have f: "find (\<lambda>x. \<forall>y\<in>set data. length (fst y) \<le> length (fst x)) data = Some (src, trg)"
    using sorted_desc_hd(3) [OF sd] d by simp
  have m: "mset ?lens = mset (map (\<lambda>x. length (fst x)) data)"
    by (metis mset_map mset_sort)
  have "sorted (map ?f (sort_key ?f data))"
    by (rule sorted_sort_key)
  then have "sorted (map uminus (map int ?lens))"
    by (simp add: comp_def)
  then have r: "sorted (rev ?lens)"
    by (simp add: sorted_wrt_rev sorted_wrt_map)
  have o: "\<forall>s t. data = [(s, t)] \<longrightarrow> src = s \<and> trg = t \<and> ?lens = [length s]"
    using sd d by auto
  from c f m r o show ?thesis by blast
qed

theorem collate_ps_longest_witness:
  "[([1, 2], ''a''), ([3, 4, 5], ''b''), ([6, 7, 8], ''c''), ([9], ''d'')] \<noteq> ([] :: (nat list \<times> string) list)
   \<and> collate_ps real [([1, 2], ''a''), ([3, 4, 5], ''b''), ([6, 7, 8], ''c''), ([9], ''d'')]
       = Inr ([3, 4, 5], [3, 3, 2, 1], ''b'')"
proof -
  let ?data = "[([1, 2], ''a''), ([3, 4, 5], ''b''), ([6, 7, 8], ''c''), ([9], ''d'')] :: (nat list \<times> string) list"
  have h: "?data \<noteq> []" by simp
  have e: "collate_ps real ?data = Inr ([3, 4, 5], [3, 3, 2, 1], ''b'')"
    by (simp add: collate_ps_def Let_def)
  from collate_ps_longest [OF h, of real] e show ?thesis by simp
qed

section \<open>Feature and label matrices\<close>

lemma tokenize_total:
  assumes "step s \<in> set [''C'', ''D'', ''E'', ''F'', ''G'', ''A'', ''B'']"
    and "- 2 \<le> alter s" and "alter s \<le> 2"
  shows "\<exists>t. tokenize_pitch_spelling [s] = Inr t"
proof -
  from assms(2,3) consider "alter s = - 2" | "alter s = - 1" | "alter s = 0" | "alter s = 1" | "alter s = 2"
    by linarith
  then show ?thesis
  proof cases
    case 1
    with assms(1) show ?thesis
      by (auto simp: tokenize_pitch_spelling_def getitem_def alter_to_str_def pitch_to_ix_eval)
  next
    case 2
    with assms(1) show ?thesis
      by (auto simp: tokenize_pitch_spelling_def getitem_def alter_to_str_def pitch_to_ix_eval)
  next
    case 3
    with assms(1) show ?thesis
      by (auto simp: tokenize_pitch_spelling_def getitem_def alter_to_str_def pitch_to_ix_eval)
  next
    case 4
    with assms(1) show ?thesis
      by (auto simp: tokenize_pitch_spelling_def getitem_def alter_to_str_def pitch_to_ix_eval)
  next
    case 5
    with assms(1) show ?thesis
      by (auto simp: tokenize_pitch_spelling_def getitem_def alter_to_str_def pitch_to_ix_eval)
  qed
qed

lemma extract_features_length: "extract_features ns = Inr v \<Longrightarrow> length v = 14"
  by (auto simp: extract_features_def Let_def split: sum.splits)

lemma create_rows_run:
  assumes "\<forall>m\<in>set ms.
             (\<exists>p. filter (\<lambda>n. Some (perf_id n) = performance_id m) pna = [p])
           \<and> (\<exists>s t. filter (\<lambda>n. Some (note_id n) = score_id m) sna = [s]
                  \<and> tokenize_pitch_spelling [s] = Inr t)"
    and "k + length ms \<le> length X" and "length y = length X"
  shows "\<exists>X' y'. create_rows pna sna (enumerate k ms) (X, y) = Inr (X', y')
           \<and> length X' = length X \<and> length y' = length X
           \<and> (\<forall>i<k. X' ! i = X ! i \<and> y' ! i = y ! i)
           \<and> (\<forall>j<length ms.
                 extract_features (filter (\<lambda>n. Some (perf_id n) = performance_id (ms ! j)) pna)
                   = Inr (X' ! (k + j))
               \<and> tokenize_pitch_spelling (filter (\<lambda>n. Some (note_id n) = score_id (ms ! j)) sna)
                   = Inr (y' ! (k + j)))"
  using assms
proof (induction ms arbitrary: k X y)
  case Nil
  then show ?case by simp
next
  case (Cons m ms)
  from Cons.prems(1) obtain p s t where
    p: "filter (\<lambda>n. Some (perf_id n) = performance_id m) pna = [p]"
    and s: "filter (\<lambda>n. Some (note_id n) = score_id m) sna = [s]"
    and t: "tokenize_pitch_spelling [s] = Inr t"
    by auto
  from p have "p \<in> set (filter (\<lambda>n. Some (perf_id n) = performance_id m) pna)" by simp
  then have pid: "performance_id m = Some (perf_id p)" by simp
  from s have "s \<in> set (filter (\<lambda>n. Some (note_id n) = score_id m) sna)" by simp
  then have sid: "score_id m = Some (note_id s)" by simp
  obtain f where f: "extract_features [p] = Inr f"
    by (simp add: extract_features_def Let_def)
  have pf: "filter (\<lambda>n. perf_id n = perf_id p) pna = [p]"
    using p pid by simp
  have sf: "filter (\<lambda>n. note_id n = note_id s) sna = [s]"
    using s sid by simp
  have step: "create_rows pna sna (enumerate k (m # ms)) (X, y)
      = create_rows pna sna (enumerate (Suc k) ms) (X[k := f], y[k := t])"
    using pid sid pf sf f t by simp
  have "\<exists>X' y'. create_rows pna sna (enumerate (Suc k) ms) (X[k := f], y[k := t]) = Inr (X', y')
           \<and> length X' = length (X[k := f]) \<and> length y' = length (X[k := f])
           \<and> (\<forall>i<Suc k. X' ! i = X[k := f] ! i \<and> y' ! i = y[k := t] ! i)
           \<and> (\<forall>j<length ms.
                 extract_features (filter (\<lambda>n. Some (perf_id n) = performance_id (ms ! j)) pna)
                   = Inr (X' ! (Suc k + j))
               \<and> tokenize_pitch_spelling (filter (\<lambda>n. Some (note_id n) = score_id (ms ! j)) sna)
                   = Inr (y' ! (Suc k + j)))"
    using Cons.prems by (intro Cons.IH) simp_all
  then obtain X' y' where r: "create_rows pna sna (enumerate (Suc k) ms) (X[k := f], y[k := t]) = Inr (X', y')"
    and lX: "length X' = length X" and ly: "length y' = length X"
    and keep: "\<forall>i<Suc k. X' ! i = X[k := f] ! i \<and> y' ! i = y[k := t] ! i"
    and rows: "\<forall>j<length ms.
                 extract_features (filter (\<lambda>n. Some (perf_id n) = performance_id (ms ! j)) pna)
                   = Inr (X' ! (Suc k + j))
               \<and> tokenize_pitch_spelling (filter (\<lambda>n. Some (note_id n) = score_id (ms ! j)) sna)
                   = Inr (y' ! (Suc k + j))"
    by auto
  from Cons.prems have kX: "k < length X" and ky: "k < length y" by simp_all
  from keep kX ky have at_k: "X' ! k = f" "y' ! k = t" by simp_all
  from keep have old: "\<forall>i<k. X' ! i = X ! i \<and> y' ! i = y ! i" by simp
  have new: "extract_features (filter (\<lambda>n. Some (perf_id n) = performance_id ((m # ms) ! j)) pna)
                   = Inr (X' ! (k + j))
               \<and> tokenize_pitch_spelling (filter (\<lambda>n. Some (note_id n) = score_id ((m # ms) ! j)) sna)
                   = Inr (y' ! (k + j))" if "j < length (m # ms)" for j
  proof (cases j)
    case 0
    with p s f t at_k show ?thesis by simp
  next
    case (Suc j')
    with that rows show ?thesis by simp
  qed
  from step r lX ly old new show ?case by auto
qed


lemma create_file_run:
  assumes "\<forall>m\<in>set alignment. label m = ''match'' \<longrightarrow>
             (\<exists>p. filter (\<lambda>n. Some (perf_id n) = performance_id m) pna = [p])
           \<and> (\<exists>s t. filter (\<lambda>n. Some (note_id n) = score_id m) sna = [s]
                  \<and> tokenize_pitch_spelling [s] = Inr t)"
  shows "\<exists>X y. create_file (pna, alignment, sna) = Inr (X, y)
           \<and> length X = length (filter (\<lambda>d. label d = ''match'') alignment)
           \<and> length y = length (filter (\<lambda>d. label d = ''match'') alignment)
           \<and> (\<forall>i<length (filter (\<lambda>d. label d = ''match'') alignment).
                 length (X ! i) = 14
               \<and> (\<exists>p\<in>set pna.
                     Some (perf_id p) = performance_id (filter (\<lambda>d. label d = ''match'') alignment ! i)
                   \<and> extract_features [p] = Inr (X ! i))
               \<and> (\<exists>s\<in>set sna.
                     Some (note_id s) = score_id (filter (\<lambda>d. label d = ''match'') alignment ! i)
                   \<and> tokenize_pitch_spelling [s] = Inr (y ! i)))"
proof -
  let ?ms = "filter (\<lambda>d. label d = ''match'') alignment"
  let ?X = "replicate (length ?ms) (replicate 14 (0::real))"
  let ?y = "replicate (length ?ms) (0::nat)"
  have ok: "\<forall>m\<in>set ?ms.
             (\<exists>p. filter (\<lambda>n. Some (perf_id n) = performance_id m) pna = [p])
           \<and> (\<exists>s t. filter (\<lambda>n. Some (note_id n) = score_id m) sna = [s]
                  \<and> tokenize_pitch_spelling [s] = Inr t)"
    using assms by simp
  have "\<exists>X' y'. create_rows pna sna (enumerate 0 ?ms) (?X, ?y) = Inr (X', y')
           \<and> length X' = length ?X \<and> length y' = length ?X
           \<and> (\<forall>i<0. X' ! i = ?X ! i \<and> y' ! i = ?y ! i)
           \<and> (\<forall>j<length ?ms.
                 extract_features (filter (\<lambda>n. Some (perf_id n) = performance_id (?ms ! j)) pna)
                   = Inr (X' ! (0 + j))
               \<and> tokenize_pitch_spelling (filter (\<lambda>n. Some (note_id n) = score_id (?ms ! j)) sna)
                   = Inr (y' ! (0 + j)))"
    using ok by (intro create_rows_run) simp_all
  then obtain X y where r: "create_rows pna sna (enumerate 0 ?ms) (?X, ?y) = Inr (X, y)"
    and lX: "length X = length ?ms" and ly: "length y = length ?ms"
    and rows: "\<forall>j<length ?ms.
                 extract_features (filter (\<lambda>n. Some (perf_id n) = performance_id (?ms ! j)) pna)
                   = Inr (X ! j)
               \<and> tokenize_pitch_spelling (filter (\<lambda>n. Some (note_id n) = score_id (?ms ! j)) sna)
                   = Inr (y ! j)"
    by auto
  have c: "create_file (pna, alignment, sna) = Inr (X, y)"
    using r by (simp add: create_file_def Let_def)
  have "length (X ! i) = 14
      \<and> (\<exists>p\<in>set pna. Some (perf_id p) = performance_id (?ms ! i) \<and> extract_features [p] = Inr (X ! i))
      \<and> (\<exists>s\<in>set sna. Some (note_id s) = score_id (?ms ! i) \<and> tokenize_pitch_spelling [s] = Inr (y ! i))"
    if i: "i < length ?ms" for i
  proof -
    from i have "?ms ! i \<in> set ?ms" by (rule nth_mem)
    with ok obtain p s where
      p: "filter (\<lambda>n. Some (perf_id n) = performance_id (?ms ! i)) pna = [p]"
      and s: "filter (\<lambda>n. Some (note_id n) = score_id (?ms ! i)) sna = [s]"
      by blast
    from p have "p \<in> set (filter (\<lambda>n. Some (perf_id n) = performance_id (?ms ! i)) pna)" by simp
    then have pm: "p \<in> set pna" "Some (perf_id p) = performance_id (?ms ! i)" by simp_all
    from s have "s \<in> set (filter (\<lambda>n. Some (note_id n) = score_id (?ms ! i)) sna)" by simp
    then have sm: "s \<in> set sna" "Some (note_id s) = score_id (?ms ! i)" by simp_all
    from rows i have "extract_features (filter (\<lambda>n. Some (perf_id n) = performance_id (?ms ! i)) pna)
                   = Inr (X ! i)"
      and "tokenize_pitch_spelling (filter (\<lambda>n. Some (note_id n) = score_id (?ms ! i)) sna)
                   = Inr (y ! i)"
      by blast+
    with p s have e: "extract_features [p] = Inr (X ! i)"
      and t: "tokenize_pitch_spelling [s] = Inr (y ! i)"
      by simp_all
    from e have "length (X ! i) = 14" by (rule extract_features_length)
    with pm sm e t show ?thesis by blast
  qed
  with c lX ly show ?thesis by blast
qed

lemma create_loop_run:
  assumes "\<forall>fl\<in>set files. \<exists>r. create_file fl = Inr r"
  shows "\<exists>data' labels'. create_loop files (data, labels) = Inr (data @ data', labels @ labels')
           \<and> length data' = length files \<and> length labels' = length files
           \<and> (\<forall>k<length files. create_file (files ! k) = Inr (data' ! k, labels' ! k))"
  using assms
proof (induction files arbitrary: data labels)
  case Nil
  then show ?case by simp
next
  case (Cons fl files)
  then obtain X y where f: "create_file fl = Inr (X, y)" by fastforce
  from Cons.prems have "\<forall>fl\<in>set files. \<exists>r. create_file fl = Inr r" by simp
  from Cons.IH [OF this, of "data @ [X]" "labels @ [y]"] obtain data' labels' where
    r: "create_loop files (data @ [X], labels @ [y]) = Inr ((data @ [X]) @ data', (labels @ [y]) @ labels')"
    and l: "length data' = length files" "length labels' = length files"
    and n: "\<forall>k<length files. create_file (files ! k) = Inr (data' ! k, labels' ! k)"
    by blast
  have "create_loop (fl # files) (data, labels) = Inr (data @ (X # data'), labels @ (y # labels'))"
    using f r by simp
  moreover have "\<forall>k<length (fl # files).
      create_file ((fl # files) ! k) = Inr ((X # data') ! k, (y # labels') ! k)"
    using f n by (auto simp: nth_Cons split: nat.splits)
  ultimately show ?case using l
    by (intro exI [of _ "X # data'"] exI [of _ "y # labels'"]) simp
qed

text \<open>
  C6. Suppose that in every file each alignment entry labelled \<^verbatim>\<open>match\<close> names exactly one
  performance note and exactly one score note, and that this score note has a step among
  the letters A to G and an alter between -2 and 2. Then \<^verbatim>\<open>create_data\<close> returns, for every file, a matrix \<open>X\<close> and a
  vector \<open>y\<close> with one row per \<^verbatim>\<open>match\<close> entry and none for the other entries: row \<open>i\<close> of
  \<open>X\<close> has 14 entries and is the feature vector of the performance note named by the
  \<open>i\<close>-th \<^verbatim>\<open>match\<close> entry, and \<open>y[i]\<close> is the token of the score note it names.
\<close>

theorem create_data_matched:
  assumes wf: "\<forall>(pna, alignment, sna) \<in> set files. \<forall>m\<in>set alignment. label m = ''match'' \<longrightarrow>
             (\<exists>p. filter (\<lambda>n. Some (perf_id n) = performance_id m) pna = [p])
           \<and> (\<exists>s. filter (\<lambda>n. Some (note_id n) = score_id m) sna = [s]
                  \<and> step s \<in> set [''C'', ''D'', ''E'', ''F'', ''G'', ''A'', ''B'']
                  \<and> - 2 \<le> alter s \<and> alter s \<le> 2)"
  shows "\<exists>data labels. create_data files = Inr (data, labels)
      \<and> length data = length files \<and> length labels = length files
      \<and> (\<forall>k<length files.
            case files ! k of (pna, alignment, sna) \<Rightarrow>
              length (data ! k) = length (filter (\<lambda>d. label d = ''match'') alignment)
            \<and> length (labels ! k) = length (filter (\<lambda>d. label d = ''match'') alignment)
            \<and> (\<forall>i<length (filter (\<lambda>d. label d = ''match'') alignment).
                  length (data ! k ! i) = 14
                \<and> (\<exists>p\<in>set pna.
                      Some (perf_id p) = performance_id (filter (\<lambda>d. label d = ''match'') alignment ! i)
                    \<and> extract_features [p] = Inr (data ! k ! i))
                \<and> (\<exists>s\<in>set sna.
                      Some (note_id s) = score_id (filter (\<lambda>d. label d = ''match'') alignment ! i)
                    \<and> tokenize_pitch_spelling [s] = Inr (labels ! k ! i))))"
proof -
  have resolved: "\<forall>m\<in>set alignment. label m = ''match'' \<longrightarrow>
             (\<exists>p. filter (\<lambda>n. Some (perf_id n) = performance_id m) pna = [p])
           \<and> (\<exists>s t. filter (\<lambda>n. Some (note_id n) = score_id m) sna = [s]
                  \<and> tokenize_pitch_spelling [s] = Inr t)"
    if "(pna, alignment, sna) \<in> set files" for pna alignment sna
  proof (intro ballI impI)
    fix m
    assume "m \<in> set alignment" and "label m = ''match''"
    with wf that obtain p s where
      p: "filter (\<lambda>n. Some (perf_id n) = performance_id m) pna = [p]"
      and s: "filter (\<lambda>n. Some (note_id n) = score_id m) sna = [s]"
      and t: "step s \<in> set [''C'', ''D'', ''E'', ''F'', ''G'', ''A'', ''B'']"
        "- 2 \<le> alter s" "alter s \<le> 2"
      by fast
    from t obtain t where "tokenize_pitch_spelling [s] = Inr t"
      using tokenize_total by blast
    with p s show "(\<exists>p. filter (\<lambda>n. Some (perf_id n) = performance_id m) pna = [p])
           \<and> (\<exists>s t. filter (\<lambda>n. Some (note_id n) = score_id m) sna = [s]
                  \<and> tokenize_pitch_spelling [s] = Inr t)"
      by blast
  qed
  have ok: "\<exists>r. create_file fl = Inr r" if "fl \<in> set files" for fl
  proof -
    obtain pna alignment sna where fl: "fl = (pna, alignment, sna)" by (cases fl)
    with that have "(pna, alignment, sna) \<in> set files" by simp
    from create_file_run [OF resolved [OF this]] fl show ?thesis by blast
  qed
  then have "\<forall>fl\<in>set files. \<exists>r. create_file fl = Inr r" by blast
  from create_loop_run [OF this, of "[]" "[]"] obtain data labels where
    c: "create_data files = Inr (data, labels)"
    and l: "length data = length files" "length labels = length files"
    and n: "\<forall>k<length files. create_file (files ! k) = Inr (data ! k, labels ! k)"
    by (auto simp: create_data_def)
  have "case files ! k of (pna, alignment, sna) \<Rightarrow>
              length (data ! k) = length (filter (\<lambda>d. label d = ''match'') alignment)
            \<and> length (labels ! k) = length (filter (\<lambda>d. label d = ''match'') alignment)
            \<and> (\<forall>i<length (filter (\<lambda>d. label d = ''match'') alignment).
                  length (data ! k ! i) = 14
                \<and> (\<exists>p\<in>set pna.
                      Some (perf_id p) = performance_id (filter (\<lambda>d. label d = ''match'') alignment ! i)
                    \<and> extract_features [p] = Inr (data ! k ! i))
                \<and> (\<exists>s\<in>set sna.
                      Some (note_id s) = score_id (filter (\<lambda>d. label d = ''match'') alignment ! i)
                    \<and> tokenize_pitch_spelling [s] = Inr (labels ! k ! i)))"
    if k: "k < length files" for k
  proof -
    obtain pna alignment sna where fk: "files ! k = (pna, alignment, sna)" by (cases "files ! k")
    from k have "files ! k \<in> set files" by (rule nth_mem)
    with fk have "(pna, alignment, sna) \<in> set files" by simp
    then have h: "\<forall>m\<in>set alignment. label m = ''match'' \<longrightarrow>
             (\<exists>p. filter (\<lambda>n. Some (perf_id n) = performance_id m) pna = [p])
           \<and> (\<exists>s t. filter (\<lambda>n. Some (note_id n) = score_id m) sna = [s]
                  \<and> tokenize_pitch_spelling [s] = Inr t)"
      by (rule resolved)
    from n k have "create_file (files ! k) = Inr (data ! k, labels ! k)" by blast
    with fk have "create_file (pna, alignment, sna) = Inr (data ! k, labels ! k)" by simp
    with create_file_run [OF h] fk show ?thesis by simp
  qed
  with c l show ?thesis by blast
qed


theorem create_data_matched_witness:
  "create_data
     [([\<lparr>perf_id = ''n0'', pitch = 60, duration_sec = 3\<rparr>, \<lparr>perf_id = ''n1'', pitch = 62, duration_sec = 6\<rparr>],
       [\<lparr>label = ''insertion'', score_id = None, performance_id = Some ''n0''\<rparr>,
        \<lparr>label = ''match'', score_id = Some ''s2'', performance_id = Some ''n1''\<rparr>,
        \<lparr>label = ''deletion'', score_id = Some ''s1'', performance_id = None\<rparr>],
       [\<lparr>note_id = ''s1'', step = ''C'', alter = 0, octave = 4\<rparr>,
        \<lparr>note_id = ''s2'', step = ''D'', alter = 0, octave = 4\<rparr>])]
   = Inr ([[[0, 0, 1, 0, 0, 0, 0, 0, 0, 0, 0, 0, 62 / 127, 1 / 10]]], [[6]])"
proof -
  let ?pna = "[\<lparr>perf_id = ''n0'', pitch = 60, duration_sec = 3\<rparr>, \<lparr>perf_id = ''n1'', pitch = 62, duration_sec = 6\<rparr>]"
  let ?al = "[\<lparr>label = ''insertion'', score_id = None, performance_id = Some ''n0''\<rparr>,
        \<lparr>label = ''match'', score_id = Some ''s2'', performance_id = Some ''n1''\<rparr>,
        \<lparr>label = ''deletion'', score_id = Some ''s1'', performance_id = None\<rparr>]"
  let ?sna = "[\<lparr>note_id = ''s1'', step = ''C'', alter = 0, octave = 4\<rparr>,
        \<lparr>note_id = ''s2'', step = ''D'', alter = 0, octave = 4\<rparr>]"
  have t: "tokenize_pitch_spelling [\<lparr>note_id = ''s2'', step = ''D'', alter = 0, octave = 4\<rparr>] = Inr 6"
    by (simp add: tokenize_pitch_spelling_def getitem_def alter_to_str_def pitch_to_ix_eval)
  have h: "\<forall>(pna, alignment, sna) \<in> set [(?pna, ?al, ?sna)]. \<forall>m\<in>set alignment. label m = ''match'' \<longrightarrow>
             (\<exists>p. filter (\<lambda>n. Some (perf_id n) = performance_id m) pna = [p])
           \<and> (\<exists>s. filter (\<lambda>n. Some (note_id n) = score_id m) sna = [s]
                  \<and> step s \<in> set [''C'', ''D'', ''E'', ''F'', ''G'', ''A'', ''B'']
                  \<and> - 2 \<le> alter s \<and> alter s \<le> 2)"
    by simp
  from create_data_matched [OF h] obtain data labels where
    c: "create_data [(?pna, ?al, ?sna)] = Inr (data, labels)"
    and l: "length data = 1" "length labels = 1"
    and n: "\<forall>k<length [(?pna, ?al, ?sna)].
            case [(?pna, ?al, ?sna)] ! k of (pna, alignment, sna) \<Rightarrow>
              length (data ! k) = length (filter (\<lambda>d. label d = ''match'') alignment)
            \<and> length (labels ! k) = length (filter (\<lambda>d. label d = ''match'') alignment)
            \<and> (\<forall>i<length (filter (\<lambda>d. label d = ''match'') alignment).
                  length (data ! k ! i) = 14
                \<and> (\<exists>p\<in>set pna.
                      Some (perf_id p) = performance_id (filter (\<lambda>d. label d = ''match'') alignment ! i)
                    \<and> extract_features [p] = Inr (data ! k ! i))
                \<and> (\<exists>s\<in>set sna.
                      Some (note_id s) = score_id (filter (\<lambda>d. label d = ''match'') alignment ! i)
                    \<and> tokenize_pitch_spelling [s] = Inr (labels ! k ! i)))"
    by auto
  from n have l0: "length (data ! 0) = 1" "length (labels ! 0) = 1"
    and e: "extract_features [\<lparr>perf_id = ''n1'', pitch = 62, duration_sec = 6\<rparr>] = Inr (data ! 0 ! 0)"
    and k: "tokenize_pitch_spelling [\<lparr>note_id = ''s2'', step = ''D'', alter = 0, octave = 4\<rparr>] = Inr (labels ! 0 ! 0)"
    by simp_all
  have f: "extract_features [\<lparr>perf_id = ''n1'', pitch = 62, duration_sec = 6\<rparr>]
      = Inr [0, 0, 1, 0, 0, 0, 0, 0, 0, 0, 0, 0, 62 / 127, 1 / 10]"
    by (simp add: extract_features_def Let_def eval_nat_numeral)
  from e f have "data ! 0 ! 0 = [0, 0, 1, 0, 0, 0, 0, 0, 0, 0, 0, 0, 62 / 127, 1 / 10]" by simp
  with l0(1) have "data ! 0 = [[0, 0, 1, 0, 0, 0, 0, 0, 0, 0, 0, 0, 62 / 127, 1 / 10]]"
    by (cases "data ! 0") simp_all
  with l(1) have d: "data = [[[0, 0, 1, 0, 0, 0, 0, 0, 0, 0, 0, 0, 62 / 127, 1 / 10]]]"
    by (cases data) simp_all
  from k t have "labels ! 0 ! 0 = 6" by simp
  with l0(2) have "labels ! 0 = [6]"
    by (cases "labels ! 0") simp_all
  with l(2) have "labels = [[6]]"
    by (cases labels) simp_all
  with c d show ?thesis by simp
qed

section \<open>Evaluation against the score\<close>

lemma find_filter_conj: "find Q (filter L xs) = find (\<lambda>m. L m \<and> Q m) xs"
  by (induction xs) auto

lemma find_Some_holds: "find P xs = Some x \<Longrightarrow> P x \<and> x \<in> set xs"
  by (induction xs) (auto split: if_splits)

lemma where_id_single:
  assumes "where_id sna sid = [j]"
  shows "j < length sna" and "note_id (sna ! j) = sid"
proof -
  have "j \<in> set (where_id sna sid)" using assms by simp
  then show "j < length sna" and "note_id (sna ! j) = sid"
    by (simp_all add: where_id_def)
qed

lemma match_loop_run:
  assumes "\<forall>m\<in>set ms. (\<exists>pid. performance_id m = Some pid)
             \<and> (\<exists>sid j. score_id m = Some sid \<and> where_id sna sid = [j])"
  shows "match_loop sna ms i p (idxs, matched) =
     (case find (\<lambda>m. performance_id m = Some (perf_id p)) ms of
        None \<Rightarrow> Inr (idxs, matched)
      | Some m \<Rightarrow> Inr (idxs @ [hd (where_id sna (the (score_id m)))], matched[i := 1]))"
  using assms
proof (induction ms)
  case Nil
  then show ?case by simp
next
  case (Cons m ms)
  then obtain pid sid j where m: "performance_id m = Some pid" "score_id m = Some sid"
    "where_id sna sid = [j]"
    by auto
  show ?case
  proof (cases "pid = perf_id p")
    case True
    with m show ?thesis by simp
  next
    case False
    with m Cons show ?thesis by simp
  qed
qed

lemma perf_loop_run:
  fixes ms :: "string alignment_entry list"
  defines "hit \<equiv> \<lambda>p. find (\<lambda>m. performance_id m = Some (perf_id p)) ms"
  assumes ok: "\<forall>m\<in>set ms. (\<exists>pid. performance_id m = Some pid)
             \<and> (\<exists>sid j. score_id m = Some sid \<and> where_id sna sid = [j])"
    and len: "k + length ps \<le> length matched"
  shows "\<exists>matched'. perf_loop sna ms (enumerate k ps) (idxs, matched) =
            Inr (idxs @ map (\<lambda>p. hd (where_id sna (the (score_id (the (hit p))))))
                          (filter (\<lambda>p. hit p \<noteq> None) ps), matched')
          \<and> length matched' = length matched
          \<and> (\<forall>i<k. matched' ! i = matched ! i)
          \<and> (\<forall>j<length ps. matched' ! (k + j) = (if hit (ps ! j) \<noteq> None then 1 else matched ! (k + j)))"
  using len
proof (induction ps arbitrary: k idxs matched)
  case Nil
  then show ?case by simp
next
  case (Cons p ps)
  let ?idx = "\<lambda>p. hd (where_id sna (the (score_id (the (hit p)))))"
  define idxs1 where "idxs1 = (if hit p \<noteq> None then idxs @ [?idx p] else idxs)"
  define matched1 where "matched1 = (if hit p \<noteq> None then matched[k := 1] else matched)"
  have m: "match_loop sna ms k p (idxs, matched) = Inr (idxs1, matched1)"
    unfolding match_loop_run [OF ok] idxs1_def matched1_def hit_def
    by (simp split: option.splits)
  have step: "perf_loop sna ms (enumerate k (p # ps)) (idxs, matched)
     = perf_loop sna ms (enumerate (Suc k) ps) (idxs1, matched1)"
    using m by simp
  have l1: "length matched1 = length matched" by (simp add: matched1_def)
  with Cons.prems have "Suc k + length ps \<le> length matched1" by simp
  from Cons.IH [OF this, of idxs1] obtain matched' where
    r: "perf_loop sna ms (enumerate (Suc k) ps) (idxs1, matched1) =
            Inr (idxs1 @ map ?idx (filter (\<lambda>p. hit p \<noteq> None) ps), matched')"
    and l: "length matched' = length matched1"
    and keep: "\<forall>i<Suc k. matched' ! i = matched1 ! i"
    and new: "\<forall>j<length ps. matched' ! (Suc k + j) = (if hit (ps ! j) \<noteq> None then 1 else matched1 ! (Suc k + j))"
    by blast
  have i: "idxs1 @ map ?idx (filter (\<lambda>p. hit p \<noteq> None) ps)
      = idxs @ map ?idx (filter (\<lambda>p. hit p \<noteq> None) (p # ps))"
    by (simp add: idxs1_def)
  from Cons.prems have kl: "k < length matched" by simp
  have old: "\<forall>i<k. matched' ! i = matched ! i"
    using keep by (simp add: matched1_def)
  have at: "matched' ! (k + j) = (if hit ((p # ps) ! j) \<noteq> None then 1 else matched ! (k + j))"
    if "j < length (p # ps)" for j
  proof (cases j)
    case 0
    with keep kl show ?thesis by (simp add: matched1_def)
  next
    case (Suc j')
    with that new show ?thesis by (simp add: matched1_def)
  qed
  from step r i l l1 old at show ?case by auto
qed

lemma mask_zip_filter:
  assumes "length ms = length ps" and "length ps = length out"
    and "\<forall>i<length ps. (ms ! i \<noteq> (0::real)) = P (ps ! i)"
  shows "map snd (filter (\<lambda>(m, x). m \<noteq> 0) (zip ms out))
       = map snd (filter (\<lambda>(p, x). P p) (zip ps out))"
  using assms
proof (induction ms ps out rule: list_induct3)
  case Nil
  then show ?case by simp
next
  case (Cons m ms p ps x out)
  from Cons.prems have h: "(m \<noteq> 0) = P p" and t: "\<forall>i<length ps. (ms ! i \<noteq> 0) = P (ps ! i)"
    by auto
  from Cons.IH [OF t] h show ?case by simp
qed

lemma length_filter_zip:
  assumes "length ps = length out"
  shows "length (filter (\<lambda>(p, x). P p) (zip ps out)) = length (filter P ps)"
  using assms by (induction ps out rule: list_induct2) simp_all


text \<open>
  C7. Suppose every alignment entry labelled \<^verbatim>\<open>match\<close> carries a performance id and names
  exactly one score note, and at least one performance note is matched. Then
  \<^verbatim>\<open>eval_matched\<close> returns a mask over the performance notes that is 1 exactly at the notes
  whose id some \<^verbatim>\<open>match\<close> entry carries and 0 elsewhere, and \<^verbatim>\<open>true_spelling\<close> lists, in the
  order of the matched performance notes, the step, alter and octave of the score note
  named by the first \<^verbatim>\<open>match\<close> entry of each. Selecting any per-note output by the mask
  keeps the entries of the matched notes in the same order, so it has the length of
  \<^verbatim>\<open>true_spelling\<close> and lines up with it position by position.
\<close>

theorem eval_matched_mask:
  assumes ok: "\<forall>m\<in>set alignment. label m = ''match'' \<longrightarrow>
             (\<exists>pid. performance_id m = Some pid)
           \<and> (\<exists>sid j. score_id m = Some sid \<and> where_id sna sid = [j])"
    and some: "\<exists>p\<in>set pna. \<exists>m\<in>set alignment. label m = ''match'' \<and> performance_id m = Some (perf_id p)"
  shows "\<exists>true_spelling matched.
      eval_matched sna alignment pna = Inr (true_spelling, matched)
    \<and> length matched = length pna
    \<and> (\<forall>i<length pna.
          matched ! i =
            (if \<exists>m\<in>set alignment. label m = ''match'' \<and> performance_id m = Some (perf_id (pna ! i))
             then 1 else 0))
    \<and> list_all2
         (\<lambda>p ts. \<exists>m s.
             find (\<lambda>m. label m = ''match'' \<and> performance_id m = Some (perf_id p)) alignment = Some m
           \<and> s \<in> set sna \<and> score_id m = Some (note_id s)
           \<and> ts = (step s, alter s, octave s))
         (filter (\<lambda>p. \<exists>m\<in>set alignment. label m = ''match'' \<and> performance_id m = Some (perf_id p)) pna)
         true_spelling
    \<and> (\<forall>out. length out = length pna \<longrightarrow>
          mask_select matched out =
            Inr (map snd (filter
              (\<lambda>(p, x). \<exists>m\<in>set alignment. label m = ''match'' \<and> performance_id m = Some (perf_id p))
              (zip pna out)))
        \<and> length (filter
              (\<lambda>(p, x). \<exists>m\<in>set alignment. label m = ''match'' \<and> performance_id m = Some (perf_id p))
              (zip pna out)) = length true_spelling)"
proof -
  let ?L = "\<lambda>d :: string alignment_entry. label d = ''match''"
  let ?ms = "filter ?L alignment"
  let ?hit = "\<lambda>p. find (\<lambda>m. performance_id m = Some (perf_id p)) ?ms"
  let ?M = "\<lambda>p. \<exists>m\<in>set alignment. label m = ''match'' \<and> performance_id m = Some (perf_id p)"
  let ?idx = "\<lambda>p. hd (where_id sna (the (score_id (the (?hit p)))))"
  let ?spell = "\<lambda>j. (step (sna ! j), alter (sna ! j), octave (sna ! j))"
  have hit_find: "?hit p = find (\<lambda>m. label m = ''match'' \<and> performance_id m = Some (perf_id p)) alignment" for p
    by (rule find_filter_conj)
  have hit_M: "(?hit p \<noteq> None) = ?M p" for p
    by (auto simp: find_None_iff)
  have ok': "\<forall>m\<in>set ?ms. (\<exists>pid. performance_id m = Some pid)
             \<and> (\<exists>sid j. score_id m = Some sid \<and> where_id sna sid = [j])"
    using ok by simp
  have "0 + length pna \<le> length (replicate (length pna) (0::real))" by simp
  from perf_loop_run [OF ok' this, of "[]"] obtain matched where
    r: "perf_loop sna ?ms (enumerate 0 pna) ([], replicate (length pna) 0)
          = Inr (map ?idx (filter (\<lambda>p. ?hit p \<noteq> None) pna), matched)"
    and l: "length matched = length pna"
    and at: "\<forall>j<length pna. matched ! j = (if ?hit (pna ! j) \<noteq> None then 1 else 0)"
    by auto
  have f: "filter (\<lambda>p. ?hit p \<noteq> None) pna = filter ?M pna"
    by (simp only: hit_M)
  from some have ne: "filter ?M pna \<noteq> []"
    by (simp add: filter_empty_conv)
  let ?ts = "map ?spell (map ?idx (filter ?M pna))"
  from r have r': "perf_loop sna ?ms (enumerate 0 pna) ([], replicate (length pna) 0)
          = Inr (map ?idx (filter ?M pna), matched)"
    unfolding f .
  have e: "eval_matched sna alignment pna = Inr (?ts, matched)"
    using ne by (simp add: eval_matched_def Let_def r')
  have mask: "\<forall>i<length pna. matched ! i = (if ?M (pna ! i) then 1 else 0)"
    using at by (simp only: hit_M)
  have rel: "\<exists>m s. find (\<lambda>m. label m = ''match'' \<and> performance_id m = Some (perf_id p)) alignment = Some m
           \<and> s \<in> set sna \<and> score_id m = Some (note_id s)
           \<and> ?spell (?idx p) = (step s, alter s, octave s)"
    if "?M p" for p
  proof -
    from that have "?hit p \<noteq> None" by (simp only: hit_M)
    then obtain m where h: "?hit p = Some m" by blast
    then have "m \<in> set ?ms" using find_Some_holds by fast
    with ok' obtain sid j where sid: "score_id m = Some sid" and w: "where_id sna sid = [j]"
      by blast
    from w have j: "j < length sna" "note_id (sna ! j) = sid"
      by (rule where_id_single)+
    from h sid w have "?idx p = j" by simp
    moreover from j have "sna ! j \<in> set sna" by simp
    moreover from h have "find (\<lambda>m. label m = ''match'' \<and> performance_id m = Some (perf_id p)) alignment = Some m"
      by (simp only: hit_find)
    ultimately show ?thesis using sid j by blast
  qed
  have la: "list_all2
         (\<lambda>p ts. \<exists>m s.
             find (\<lambda>m. label m = ''match'' \<and> performance_id m = Some (perf_id p)) alignment = Some m
           \<and> s \<in> set sna \<and> score_id m = Some (note_id s)
           \<and> ts = (step s, alter s, octave s))
         (filter ?M pna) ?ts"
  proof -
    have "\<forall>p\<in>set (filter ?M pna). \<exists>m s.
             find (\<lambda>m. label m = ''match'' \<and> performance_id m = Some (perf_id p)) alignment = Some m
           \<and> s \<in> set sna \<and> score_id m = Some (note_id s)
           \<and> ?spell (?idx p) = (step s, alter s, octave s)"
    proof
      fix p
      assume "p \<in> set (filter ?M pna)"
      then have "?M p" by simp
      then show "\<exists>m s.
             find (\<lambda>m. label m = ''match'' \<and> performance_id m = Some (perf_id p)) alignment = Some m
           \<and> s \<in> set sna \<and> score_id m = Some (note_id s)
           \<and> ?spell (?idx p) = (step s, alter s, octave s)"
        by (rule rel)
    qed
    then show ?thesis
      by (simp only: list_all2_map2 list_all2_same)
  qed
  have sel: "mask_select matched out = Inr (map snd (filter (\<lambda>(p, x). ?M p) (zip pna out)))
        \<and> length (filter (\<lambda>(p, x). ?M p) (zip pna out)) = length ?ts"
    if o: "length out = length pna" for out :: "'b list"
  proof -
    have "\<forall>i<length pna. (matched ! i \<noteq> 0) = ?M (pna ! i)"
      using mask by simp
    with l o have "map snd (filter (\<lambda>(m, x). m \<noteq> 0) (zip matched out))
       = map snd (filter (\<lambda>(p, x). ?M p) (zip pna out))"
      by (intro mask_zip_filter) simp_all
    moreover have "length (filter (\<lambda>(p, x). ?M p) (zip pna out)) = length (filter ?M pna)"
      using o by (intro length_filter_zip) simp
    ultimately show ?thesis using l o by (simp add: mask_select_def)
  qed
  from e l mask la sel show ?thesis by blast
qed


theorem eval_matched_mask_witness:
  "eval_matched
     [\<lparr>note_id = ''s1'', step = ''C'', alter = 0, octave = 4\<rparr>,
      \<lparr>note_id = ''s2'', step = ''B'', alter = -1, octave = 3\<rparr>,
      \<lparr>note_id = ''s3'', step = ''D'', alter = 0, octave = 4\<rparr>]
     [\<lparr>label = ''match'', score_id = Some ''s2'', performance_id = Some ''n2''\<rparr>,
      \<lparr>label = ''insertion'', score_id = None, performance_id = Some ''n1''\<rparr>,
      \<lparr>label = ''match'', score_id = Some ''s1'', performance_id = Some ''n0''\<rparr>,
      \<lparr>label = ''deletion'', score_id = Some ''s3'', performance_id = None\<rparr>]
     [\<lparr>perf_id = ''n0'', pitch = 60, duration_sec = 1\<rparr>,
      \<lparr>perf_id = ''n1'', pitch = 61, duration_sec = 1\<rparr>,
      \<lparr>perf_id = ''n2'', pitch = 58, duration_sec = 1\<rparr>]
   = Inr ([(''C'', 0, 4), (''B'', -1, 3)], [1, 0, 1])
   \<and> mask_select [1, 0, 1] [''x0'', ''x1'', ''x2''] = Inr [''x0'', ''x2'']"
proof -
  let ?sna = "[\<lparr>note_id = ''s1'', step = ''C'', alter = 0, octave = 4\<rparr>,
      \<lparr>note_id = ''s2'', step = ''B'', alter = -1, octave = 3\<rparr>,
      \<lparr>note_id = ''s3'', step = ''D'', alter = 0, octave = 4\<rparr>]"
  let ?al = "[\<lparr>label = ''match'', score_id = Some ''s2'', performance_id = Some ''n2''\<rparr>,
      \<lparr>label = ''insertion'', score_id = None, performance_id = Some ''n1''\<rparr>,
      \<lparr>label = ''match'', score_id = Some ''s1'', performance_id = Some ''n0''\<rparr>,
      \<lparr>label = ''deletion'', score_id = Some ''s3'', performance_id = None\<rparr>]"
  let ?pna = "[\<lparr>perf_id = ''n0'', pitch = 60, duration_sec = 1\<rparr>,
      \<lparr>perf_id = ''n1'', pitch = 61, duration_sec = 1\<rparr>,
      \<lparr>perf_id = ''n2'', pitch = 58, duration_sec = 1\<rparr>]"
  have h1: "\<forall>m\<in>set ?al. label m = ''match'' \<longrightarrow>
             (\<exists>pid. performance_id m = Some pid)
           \<and> (\<exists>sid j. score_id m = Some sid \<and> where_id ?sna sid = [j])"
    by (simp add: where_id_def)
  have h2: "\<exists>p\<in>set ?pna. \<exists>m\<in>set ?al. label m = ''match'' \<and> performance_id m = Some (perf_id p)"
    by simp
  have e: "eval_matched ?sna ?al ?pna = Inr ([(''C'', 0, 4), (''B'', -1, 3)], [1, 0, 1])"
    by (simp add: eval_matched_def Let_def where_id_def)
  from eval_matched_mask [OF h1 h2] obtain ts matched where
    r: "eval_matched ?sna ?al ?pna = Inr (ts, matched)"
    and sel: "\<forall>out :: string list. length out = length ?pna \<longrightarrow>
          mask_select matched out =
            Inr (map snd (filter
              (\<lambda>(p, x). \<exists>m\<in>set ?al. label m = ''match'' \<and> performance_id m = Some (perf_id p))
              (zip ?pna out)))"
    by blast
  from r e have m: "matched = [1, 0, 1]" by simp
  have "length [''x0'', ''x1'', ''x2''] = length ?pna" by simp
  with sel have "mask_select matched [''x0'', ''x1'', ''x2''] =
            Inr (map snd (filter
              (\<lambda>(p, x). \<exists>m\<in>set ?al. label m = ''match'' \<and> performance_id m = Some (perf_id p))
              (zip ?pna [''x0'', ''x1'', ''x2''])))"
    by blast
  with m have "mask_select [1, 0, 1] [''x0'', ''x1'', ''x2''] = Inr [''x0'', ''x2'']"
    by simp
  with e show ?thesis by blast
qed

end
